theory Spec2Isabelle
  imports Complex_Main "HOL-Library.AList"
begin

section \<open>Hydra mesh integrator: data model\<close>

text \<open>
  The development embeds \<^verbatim>\<open>src/reconstruction/mesh_integrator.cpp\<close>. Block and voxel
  indices are Eigen vectors of \<^verbatim>\<open>IndexElement\<close> (a C++ \<^verbatim>\<open>int\<close>); they are modelled as
  triples of mathematical integers. Every index the integrator computes stays between
  \<open>-1\<close> and \<open>voxels_per_side\<close>, so no 32-bit wrap-around is reachable from the loops
  modelled here. \<^verbatim>\<open>FloatingPoint\<close> values (distances, weights) are modelled as reals.
\<close>

type_synonym Index3 = "int \<times> int \<times> int"
type_synonym BlockIndex = Index3
type_synonym VoxelIndex = Index3
type_synonym Color = "nat \<times> nat \<times> nat \<times> nat"

datatype error = NullBlock | CheckFailed | OutOfRange

datatype Update = kMap | kMesh | kEsdf

record TsdfVoxel =
  distance :: real
  weight :: real

record VertexVoxel =
  on_surface :: bool

record SemanticVoxel =
  semantic_label :: nat

text \<open>
  Modelled from the spec: voxblox is a library outside the repository. Its
  \<^verbatim>\<open>Block\<close> template holds the voxels in linear order and the \<^verbatim>\<open>updated()\<close> bitset.
  The number of voxels per side is kept once per layer (voxblox constructs every block of
  a layer with the layer's value).
\<close>

record 'v Block =
  voxels :: "'v list"
  updated :: "Update set"

text \<open>
  Modelled from the spec: the voxblox \<^verbatim>\<open>Layer\<close> template, with the block hash map as an
  association list, whose order is the iteration order of the map.
\<close>

record 'v Layer =
  voxels_per_side :: nat
  block_map :: "(BlockIndex \<times> 'v Block) list"

record 'p Mesh =
  vertices :: "'p list"
  indices :: "nat list"
  colors :: "Color list"
  mesh_updated :: bool

text \<open>
  Modelled from the spec: the mesh store (\<^verbatim>\<open>SemanticMeshLayer\<close>, declared in a header that
  is not part of the sources) keeps, per block index, a mesh and an optional sequence of
  per-vertex labels.
\<close>

record 'p SemanticMeshLayer =
  meshes :: "BlockIndex \<rightharpoonup> 'p Mesh"
  semantics :: "BlockIndex \<rightharpoonup> nat list"

record MeshIntegratorConfig =
  integrator_threads :: nat
  min_weight :: real

text \<open>
  The floating-point geometry of voxblox, the voxel-to-colour mapping and the lookup
  tables of the Marching Cubes kernel are parameters of the model: the coordinate
  conversions of a block, the block that contains a point, the corner offset
  \<^verbatim>\<open>point + cube_coord_offsets_.col(i)\<close>, the colour of a distance voxel, and
  \<open>cubeVertices\<close>, which gives for the eight corner distances and positions of a cell
  the vertices the kernel emits, each with the number of the corner it is anchored to.
  Points are values of an arbitrary type \<open>'p\<close>.
\<close>

record 'p Externals =
  computeCoordinatesFromVoxelIndex :: "BlockIndex \<Rightarrow> VoxelIndex \<Rightarrow> 'p"
  computeVoxelIndexFromCoordinates :: "BlockIndex \<Rightarrow> 'p \<Rightarrow> VoxelIndex"
  computeBlockIndexFromCoordinates :: "'p \<Rightarrow> BlockIndex"
  cube_coord_offsets :: "'p \<Rightarrow> nat \<Rightarrow> 'p"
  voxelColor :: "TsdfVoxel \<Rightarrow> Color"
  cubeVertices :: "real list \<Rightarrow> 'p list \<Rightarrow> ('p \<times> nat) list"

record 'p Integrator =
  sdf_layer :: "TsdfVoxel Layer"
  vertex_layer :: "VertexVoxel Layer"
  mesh_layer :: "'p SemanticMeshLayer"
  semantic_layer :: "SemanticVoxel Layer option"

section \<open>Index arithmetic\<close>

definition add3 :: "Index3 \<Rightarrow> Index3 \<Rightarrow> Index3" where
  "add3 a b = (case a of (ax, ay, az) \<Rightarrow> case b of (bx, by, bz) \<Rightarrow> (ax + bx, ay + by, az + bz))"

text \<open>The columns of \<^verbatim>\<open>cube_index_offsets_\<close>, as the constructor fills the matrix.\<close>

definition cube_index_offsets :: "nat \<Rightarrow> Index3" where
  "cube_index_offsets i =
     [(0, 0, 0), (1, 0, 0), (1, 1, 0), (0, 1, 0), (0, 0, 1), (1, 0, 1), (1, 1, 1), (0, 1, 1)] ! i"

text \<open>
  Modelled from the spec: a voxel index is valid when each of its components lies in
  \<open>[0, voxels_per_side)\<close>; the voxel of a valid index \<open>(x, y, z)\<close> is stored at position
  \<open>x + vps * (y + z * vps)\<close> of the block's array, as in voxblox.
\<close>

definition isValidVoxelIndex :: "nat \<Rightarrow> VoxelIndex \<Rightarrow> bool" where
  "isValidVoxelIndex vps idx =
     (case idx of (x, y, z) \<Rightarrow>
        0 \<le> x \<and> x < int vps \<and> 0 \<le> y \<and> y < int vps \<and> 0 \<le> z \<and> z < int vps)"

definition computeLinearIndexFromVoxelIndex :: "nat \<Rightarrow> VoxelIndex \<Rightarrow> nat" where
  "computeLinearIndexFromVoxelIndex vps idx =
     (case idx of (x, y, z) \<Rightarrow> nat (x + int vps * (y + z * int vps)))"

text \<open>
  \<^verbatim>\<open>getNeighborBlockIndex\<close>: per axis, a component below zero moves one block down and a
  component at or above \<^verbatim>\<open>voxels_per_side_\<close> moves one block up; the corner index is
  updated in place, so the function returns it with the block index.
\<close>

definition wrapAxis :: "nat \<Rightarrow> int \<Rightarrow> int \<times> int" where
  "wrapAxis vps c =
     (if c < 0 then (- 1, c + int vps)
      else if c \<ge> int vps then (1, c - int vps)
      else (0, c))"

definition getNeighborBlockIndex :: "nat \<Rightarrow> BlockIndex \<Rightarrow> VoxelIndex \<Rightarrow> BlockIndex \<times> VoxelIndex" where
  "getNeighborBlockIndex vps block_idx corner_index =
     (case corner_index of (cx, cy, cz) \<Rightarrow>
        let (ox, cx') = wrapAxis vps cx;
            (oy, cy') = wrapAxis vps cy;
            (oz, cz') = wrapAxis vps cz
        in (add3 block_idx (ox, oy, oz), (cx', cy', cz')))"

section \<open>The cells of the two passes\<close>

text \<open>
  \<^verbatim>\<open>updateBlockInterior\<close> runs three nested loops, x outermost, each over
  \<open>0 \<le> i < vps - 1\<close>.
\<close>

definition interiorCells :: "int \<Rightarrow> VoxelIndex list" where
  "interiorCells vps =
     concat (map (\<lambda>x. concat (map (\<lambda>y. map (\<lambda>z. (x, y, z)) [0..vps - 2]) [0..vps - 2])) [0..vps - 2])"

text \<open>
  \<^verbatim>\<open>updateBlockExterior\<close> runs three loop nests over one shared \<^verbatim>\<open>voxel_index\<close>. Each
  nest assigns one component before its loops and the other two in the loop headers, so
  no component is read with a value left by an earlier nest.
\<close>

definition maxXCells :: "int \<Rightarrow> VoxelIndex list" where
  "maxXCells vps = concat (map (\<lambda>z. map (\<lambda>y. (vps - 1, y, z)) [0..vps - 1]) [0..vps - 1])"

definition maxYCells :: "int \<Rightarrow> VoxelIndex list" where
  "maxYCells vps = concat (map (\<lambda>z. map (\<lambda>x. (x, vps - 1, z)) [0..vps - 2]) [0..vps - 1])"

definition maxZCells :: "int \<Rightarrow> VoxelIndex list" where
  "maxZCells vps = concat (map (\<lambda>y. map (\<lambda>x. (x, y, vps - 1)) [0..vps - 2]) [0..vps - 2])"

definition exteriorCells :: "int \<Rightarrow> VoxelIndex list" where
  "exteriorCells vps = maxXCells vps @ maxYCells vps @ maxZCells vps"

section \<open>Layer and block access\<close>

text \<open>
  Modelled from the spec: the accessors of voxblox, a library outside the repository,
  are written here as the integrator uses them. A lookup that the C++ answers with a null pointer gives \<open>None\<close>;
  dereferencing it is the error \<open>NullBlock\<close>. Reading a voxel with an index outside the
  block's array is the error \<open>OutOfRange\<close>.
\<close>

definition getBlockPtrByIndex :: "'v Layer \<Rightarrow> BlockIndex \<Rightarrow> 'v Block option" where
  "getBlockPtrByIndex layer idx = map_of (block_map layer) idx"

definition hasBlock :: "'v Layer \<Rightarrow> BlockIndex \<Rightarrow> bool" where
  "hasBlock layer idx = (getBlockPtrByIndex layer idx \<noteq> None)"

definition getVoxelByVoxelIndex :: "nat \<Rightarrow> 'v Block \<Rightarrow> VoxelIndex \<Rightarrow> error + 'v" where
  "getVoxelByVoxelIndex vps blk idx =
     (let k = computeLinearIndexFromVoxelIndex vps idx
      in if isValidVoxelIndex vps idx \<and> k < length (voxels blk)
         then Inr (voxels blk ! k) else Inl OutOfRange)"

text \<open>
  Modelled from the spec: \<^verbatim>\<open>getVoxelByCoordinates\<close> of voxblox truncates the voxel index of the point into the
  block before it reads.
\<close>

definition truncateVoxelIndex :: "nat \<Rightarrow> VoxelIndex \<Rightarrow> VoxelIndex" where
  "truncateVoxelIndex vps idx =
     (case idx of (x, y, z) \<Rightarrow>
        (max (min x (int vps - 1)) 0, max (min y (int vps - 1)) 0, max (min z (int vps - 1)) 0))"

definition getVoxelByCoordinates ::
  "'p Externals \<Rightarrow> nat \<Rightarrow> BlockIndex \<Rightarrow> 'v Block \<Rightarrow> 'p \<Rightarrow> error + 'v" where
  "getVoxelByCoordinates ext vps bidx blk p =
     getVoxelByVoxelIndex vps blk
       (truncateVoxelIndex vps (computeVoxelIndexFromCoordinates ext bidx p))"

text \<open>
  Modelled from the spec: \<^verbatim>\<open>getSdfIfValid\<close> and \<^verbatim>\<open>getColorIfValid\<close> belong to voxblox's
  meshing utilities, which are not part of the sources. A distance voxel is valid for
  geometry only if its weight is at least the configured minimum; a vertex whose voxel
  has a weight below the minimum is left uncoloured.
\<close>

definition getSdfIfValid :: "TsdfVoxel \<Rightarrow> real \<Rightarrow> real option" where
  "getSdfIfValid voxel mw = (if weight voxel < mw then None else Some (distance voxel))"

definition getColorIfValid :: "'p Externals \<Rightarrow> TsdfVoxel \<Rightarrow> real \<Rightarrow> Color option" where
  "getColorIfValid ext voxel mw = (if weight voxel < mw then None else Some (voxelColor ext voxel))"

definition defaultColor :: Color where
  "defaultColor = (0, 0, 0, 0)"

section \<open>Vertex markers and the Cube Sampler\<close>

text \<open>
  A \<^verbatim>\<open>VertexVoxel*\<close> is modelled as an address: the index of the block and the linear
  position in the block's array. \<open>None\<close> is the null pointer. Writing through an address
  changes the vertex layer at that block and position.
\<close>

type_synonym VoxelRef = "BlockIndex \<times> nat"

type_synonym 'p CornerData = "real list \<times> 'p list \<times> VoxelRef option list"

type_synonym 'p MeshState = "nat \<times> 'p Mesh \<times> VertexVoxel Layer"

definition markOnSurface :: "VoxelRef \<Rightarrow> VertexVoxel Layer \<Rightarrow> VertexVoxel Layer" where
  "markOnSurface r vl =
     (case r of (b, k) \<Rightarrow>
        vl\<lparr>block_map := AList.map_entry b
              (\<lambda>blk. blk\<lparr>voxels := (voxels blk)[k := (voxels blk ! k)\<lparr>on_surface := True\<rparr>]\<rparr>)
              (block_map vl)\<rparr>)"

text \<open>
  Modelled from the spec: the Cube Sampler \<^verbatim>\<open>MarchingCubes::meshCube\<close> is declared in
  \<^verbatim>\<open>marching_cubes.h\<close>, which is not part of the sources. For each vertex the kernel
  emits, the sampler appends the vertex to the mesh with the running counter as its
  triangle index, advances the counter, and marks the vertex marker of the corner the
  vertex is anchored to when the reference for that corner is not null.
\<close>

fun emitVertices :: "VoxelRef option list \<Rightarrow> ('p \<times> nat) list \<Rightarrow> 'p MeshState \<Rightarrow> 'p MeshState" where
  "emitVertices vox [] s = s"
| "emitVertices vox ((p, c) # es) (next_index, mesh, vl) =
     emitVertices vox es
       (Suc next_index,
        mesh\<lparr>vertices := vertices mesh @ [p], indices := indices mesh @ [next_index]\<rparr>,
        (case (if c < length vox then vox ! c else None) of
           None \<Rightarrow> vl
         | Some r \<Rightarrow> markOnSurface r vl))"

definition meshCube ::
  "'p Externals \<Rightarrow> BlockIndex \<Rightarrow> 'p list \<Rightarrow> real list \<Rightarrow> VoxelRef option list \<Rightarrow>
   'p MeshState \<Rightarrow> 'p MeshState" where
  "meshCube ext block coords sdf vox s = emitVertices vox (cubeVertices ext sdf coords) s"

section \<open>Extraction of one cell\<close>

text \<open>
  The corner loops return \<open>Inr None\<close> where the C++ returns early, \<open>Inr (Some data)\<close>
  when all eight corners were read, and \<open>Inl e\<close> on a fatal error. The distances and
  positions are filled in corner order; the marker references start as eight null
  pointers and are assigned by position.
\<close>

definition cornerNumbers :: "nat list" where
  "cornerNumbers = [0..<8]"

fun insideCorners ::
  "'p Externals \<Rightarrow> real \<Rightarrow> nat \<Rightarrow> BlockIndex \<Rightarrow> TsdfVoxel Block \<Rightarrow> VoxelIndex \<Rightarrow> 'p \<Rightarrow>
   nat list \<Rightarrow> 'p CornerData \<Rightarrow> error + 'p CornerData option" where
  "insideCorners ext mw vps block_idx block index point [] acc = Inr (Some acc)"
| "insideCorners ext mw vps block_idx block index point (i # rest) (sdf, coords, vox) =
     (let corner_index = add3 index (cube_index_offsets i)
      in case getVoxelByVoxelIndex vps block corner_index of
           Inl e \<Rightarrow> Inl e
         | Inr voxel \<Rightarrow>
             (case getSdfIfValid voxel mw of
                None \<Rightarrow> Inr None
              | Some d \<Rightarrow>
                  insideCorners ext mw vps block_idx block index point rest
                    (sdf @ [d], coords @ [cube_coord_offsets ext point i],
                     vox[i := Some (block_idx, computeLinearIndexFromVoxelIndex vps corner_index)])))"

text \<open>
  \<^verbatim>\<open>extractMeshInsideBlock\<close>. The \<^verbatim>\<open>DCHECK\<close> on the vertex block is kept as a check.
\<close>

definition extractMeshInsideBlock ::
  "'p Externals \<Rightarrow> MeshIntegratorConfig \<Rightarrow> nat \<Rightarrow> BlockIndex \<Rightarrow> TsdfVoxel Block \<Rightarrow>
   VoxelIndex \<Rightarrow> 'p \<Rightarrow> 'p MeshState \<Rightarrow> error + 'p MeshState" where
  "extractMeshInsideBlock ext cfg vps block_idx block index point s =
     (case s of (next_index, mesh, vl) \<Rightarrow>
        if \<not> hasBlock vl block_idx then Inl NullBlock
        else
          (case insideCorners ext (min_weight cfg) vps block_idx block index point cornerNumbers
                  ([], [], replicate 8 None) of
             Inl e \<Rightarrow> Inl e
           | Inr None \<Rightarrow> Inr s
           | Inr (Some (sdf, coords, vox)) \<Rightarrow> Inr (meshCube ext block_idx coords sdf vox s)))"

text \<open>
  The first half of the body of the corner loop of \<^verbatim>\<open>extractMeshOnBorder\<close>: the distance
  voxel of the corner and the marker reference stored for it. A corner inside the block
  is read from the block and gets a reference into the block's vertex markers. A corner
  outside is read from the neighbour block, after the \<^verbatim>\<open>CHECK\<close> on the wrapped index, and
  gets no reference; \<open>Inr None\<close> is the early return for a neighbour that is not allocated.
\<close>

definition borderCornerVoxel ::
  "TsdfVoxel Layer \<Rightarrow> BlockIndex \<Rightarrow> TsdfVoxel Block \<Rightarrow> VoxelIndex \<Rightarrow> nat \<Rightarrow>
   error + (TsdfVoxel \<times> VoxelRef option) option" where
  "borderCornerVoxel layer block_idx block index i =
     (let vps = voxels_per_side layer;
          corner_index = add3 index (cube_index_offsets i)
      in if isValidVoxelIndex vps corner_index then
           (case getVoxelByVoxelIndex vps block corner_index of
              Inl e \<Rightarrow> Inl e
            | Inr voxel \<Rightarrow>
                Inr (Some (voxel, Some (block_idx, computeLinearIndexFromVoxelIndex vps corner_index))))
         else
           (case getNeighborBlockIndex vps block_idx corner_index of
              (neighbor_idx, wrapped_index) \<Rightarrow>
                (case getBlockPtrByIndex layer neighbor_idx of
                   None \<Rightarrow> Inr None
                 | Some neighbor_block \<Rightarrow>
                     if \<not> isValidVoxelIndex vps wrapped_index then Inl CheckFailed
                     else
                       (case getVoxelByVoxelIndex vps neighbor_block wrapped_index of
                          Inl e \<Rightarrow> Inl e
                        | Inr voxel \<Rightarrow> Inr (Some (voxel, None))))))"

fun borderCorners ::
  "'p Externals \<Rightarrow> real \<Rightarrow> TsdfVoxel Layer \<Rightarrow> BlockIndex \<Rightarrow> TsdfVoxel Block \<Rightarrow> VoxelIndex \<Rightarrow> 'p \<Rightarrow>
   nat list \<Rightarrow> 'p CornerData \<Rightarrow> error + 'p CornerData option" where
  "borderCorners ext mw layer block_idx block index point [] acc = Inr (Some acc)"
| "borderCorners ext mw layer block_idx block index point (i # rest) (sdf, coords, vox) =
     (case borderCornerVoxel layer block_idx block index i of
        Inl e \<Rightarrow> Inl e
      | Inr None \<Rightarrow> Inr None
      | Inr (Some (voxel, marker)) \<Rightarrow>
          (case getSdfIfValid voxel mw of
             None \<Rightarrow> Inr None
           | Some d \<Rightarrow>
               borderCorners ext mw layer block_idx block index point rest
                 (sdf @ [d], coords @ [cube_coord_offsets ext point i],
                  (case marker of None \<Rightarrow> vox | Some r \<Rightarrow> vox[i := Some r]))))"

definition extractMeshOnBorder ::
  "'p Externals \<Rightarrow> MeshIntegratorConfig \<Rightarrow> TsdfVoxel Layer \<Rightarrow> BlockIndex \<Rightarrow> TsdfVoxel Block \<Rightarrow>
   VoxelIndex \<Rightarrow> 'p \<Rightarrow> 'p MeshState \<Rightarrow> error + 'p MeshState" where
  "extractMeshOnBorder ext cfg layer block_idx block index point s =
     (case s of (next_index, mesh, vl) \<Rightarrow>
        if \<not> hasBlock vl block_idx then Inl NullBlock
        else
          (case borderCorners ext (min_weight cfg) layer block_idx block index point cornerNumbers
                  ([], [], replicate 8 None) of
             Inl e \<Rightarrow> Inl e
           | Inr None \<Rightarrow> Inr s
           | Inr (Some (sdf, coords, vox)) \<Rightarrow> Inr (meshCube ext block_idx coords sdf vox s)))"

section \<open>Colour and label painting\<close>

fun foldE :: "('a \<Rightarrow> 's \<Rightarrow> error + 's) \<Rightarrow> 'a list \<Rightarrow> 's \<Rightarrow> error + 's" where
  "foldE f [] s = Inr s"
| "foldE f (x # xs) s = (case f x s of Inl e \<Rightarrow> Inl e | Inr s' \<Rightarrow> foldE f xs s')"

text \<open>\<^verbatim>\<open>std::vector::resize\<close>: keep the first \<open>n\<close> elements, pad with the default value.\<close>

definition resize :: "nat \<Rightarrow> 'a \<Rightarrow> 'a list \<Rightarrow> 'a list" where
  "resize n d xs = take n xs @ replicate (n - length xs) d"

text \<open>
  The nearest-neighbour lookup of \<^verbatim>\<open>updateMeshColor\<close> for one vertex: the distance voxel
  and, when a semantic layer is configured, the semantic voxel. The lookup goes to the
  current block when the voxel index of the vertex is valid there, and to the block that
  contains the vertex otherwise.
\<close>

definition lookupVertexVoxels ::
  "'p Externals \<Rightarrow> 'p Integrator \<Rightarrow> TsdfVoxel Block \<Rightarrow> BlockIndex \<Rightarrow> 'p \<Rightarrow>
   error + (TsdfVoxel \<times> SemanticVoxel option)" where
  "lookupVertexVoxels ext integ block index vertex =
     (let vps = voxels_per_side (sdf_layer integ);
          voxel_index = computeVoxelIndexFromCoordinates ext index vertex
      in if isValidVoxelIndex vps voxel_index then
           (case getVoxelByVoxelIndex vps block voxel_index of
              Inl e \<Rightarrow> Inl e
            | Inr voxel \<Rightarrow>
                (case semantic_layer integ of
                   None \<Rightarrow> Inr (voxel, None)
                 | Some sl \<Rightarrow>
                     (case getBlockPtrByIndex sl index of
                        None \<Rightarrow> Inl NullBlock
                      | Some semantic_block \<Rightarrow>
                          (case getVoxelByVoxelIndex (voxels_per_side sl) semantic_block voxel_index of
                             Inl e \<Rightarrow> Inl e
                           | Inr sv \<Rightarrow> Inr (voxel, Some sv)))))
         else
           (let nidx = computeBlockIndexFromCoordinates ext vertex
            in case getBlockPtrByIndex (sdf_layer integ) nidx of
                 None \<Rightarrow> Inl NullBlock
               | Some neighbor_block \<Rightarrow>
                   (case getVoxelByCoordinates ext vps nidx neighbor_block vertex of
                      Inl e \<Rightarrow> Inl e
                    | Inr voxel \<Rightarrow>
                        (case semantic_layer integ of
                           None \<Rightarrow> Inr (voxel, None)
                         | Some sl \<Rightarrow>
                             (case getBlockPtrByIndex sl nidx of
                                None \<Rightarrow> Inl NullBlock
                              | Some semantic_block \<Rightarrow>
                                  (case getVoxelByCoordinates ext (voxels_per_side sl) nidx
                                          semantic_block vertex of
                                     Inl e \<Rightarrow> Inl e
                                   | Inr sv \<Rightarrow> Inr (voxel, Some sv)))))))"

text \<open>
  One iteration of the painting loop, on the colours and on the label sequence of the
  block (\<open>None\<close> when \<^verbatim>\<open>mesh_semantics_block\<close> is null). \<^verbatim>\<open>colors[i]\<close> and \<^verbatim>\<open>at(i)\<close> outside
  the sequence are the error \<open>OutOfRange\<close>.
\<close>

definition paintVertex ::
  "'p Externals \<Rightarrow> MeshIntegratorConfig \<Rightarrow> 'p Integrator \<Rightarrow> TsdfVoxel Block \<Rightarrow> BlockIndex \<Rightarrow>
   'p list \<Rightarrow> nat \<Rightarrow> Color list \<times> nat list option \<Rightarrow> error + (Color list \<times> nat list option)" where
  "paintVertex ext cfg integ block index verts i s =
     (case s of (cols, labels) \<Rightarrow>
        (case lookupVertexVoxels ext integ block index (verts ! i) of
           Inl e \<Rightarrow> Inl e
         | Inr (voxel, semantic_voxel) \<Rightarrow>
             if i \<ge> length cols then Inl OutOfRange
             else
               (let cols' = (case getColorIfValid ext voxel (min_weight cfg) of
                               None \<Rightarrow> cols
                             | Some c \<Rightarrow> cols[i := c])
                in case semantic_voxel of
                     None \<Rightarrow> Inr (cols', labels)
                   | Some sv \<Rightarrow>
                       (case labels of
                          None \<Rightarrow> Inl NullBlock
                        | Some ls \<Rightarrow>
                            if i \<ge> length ls then Inl OutOfRange
                            else Inr (cols', Some (ls[i := semantic_label sv]))))))"

text \<open>
  \<^verbatim>\<open>updateMeshColor\<close> returns the mesh with its new colours and the new label sequence of
  the block. Both sequences are sized by \<^verbatim>\<open>mesh->indices.size()\<close>.
\<close>

definition updateMeshColor ::
  "'p Externals \<Rightarrow> MeshIntegratorConfig \<Rightarrow> 'p Integrator \<Rightarrow> TsdfVoxel Block \<Rightarrow> 'p Mesh \<Rightarrow>
   BlockIndex \<Rightarrow> error + ('p Mesh \<times> nat list option)" where
  "updateMeshColor ext cfg integ block mesh index =
     (let n = length (indices mesh);
          cols0 = replicate n defaultColor
      in case (case semantic_layer integ of
                 None \<Rightarrow> Inr None
               | Some sl \<Rightarrow>
                   (case semantics (mesh_layer integ) index of
                      None \<Rightarrow> Inl NullBlock
                    | Some ls \<Rightarrow> Inr (Some (resize n 0 ls)))) of
           Inl e \<Rightarrow> Inl e
         | Inr labels0 \<Rightarrow>
             (case foldE (paintVertex ext cfg integ block index (vertices mesh))
                     [0..<length (vertices mesh)] (cols0, labels0) of
                Inl e \<Rightarrow> Inl e
              | Inr (cols, labels) \<Rightarrow> Inr (mesh\<lparr>colors := cols\<rparr>, labels)))"

section \<open>The two passes over one block\<close>

definition storeMesh :: "BlockIndex \<Rightarrow> 'p Mesh \<Rightarrow> 'p SemanticMeshLayer \<Rightarrow> 'p SemanticMeshLayer" where
  "storeMesh idx mesh ml = ml\<lparr>meshes := (meshes ml)(idx \<mapsto> mesh)\<rparr>"

definition storeLabels :: "BlockIndex \<Rightarrow> nat list option \<Rightarrow> 'p SemanticMeshLayer \<Rightarrow> 'p SemanticMeshLayer" where
  "storeLabels idx labels ml =
     (case labels of None \<Rightarrow> ml | Some ls \<Rightarrow> ml\<lparr>semantics := (semantics ml)(idx \<mapsto> ls)\<rparr>)"

text \<open>
  \<^verbatim>\<open>updateBlockInterior\<close>. The mesh pointer is dereferenced only inside the cell loop, the
  block pointer before it.
\<close>

definition updateBlockInterior ::
  "'p Externals \<Rightarrow> MeshIntegratorConfig \<Rightarrow> BlockIndex \<Rightarrow> 'p Integrator \<Rightarrow> error + 'p Integrator" where
  "updateBlockInterior ext cfg block_index integ =
     (case getBlockPtrByIndex (sdf_layer integ) block_index of
        None \<Rightarrow> Inl NullBlock
      | Some block \<Rightarrow>
          (let vps = voxels_per_side (sdf_layer integ);
               cells = interiorCells (int vps)
           in case meshes (mesh_layer integ) block_index of
                None \<Rightarrow> (if cells = [] then Inr integ else Inl NullBlock)
              | Some mesh \<Rightarrow>
                  (case foldE (\<lambda>voxel_index.
                            extractMeshInsideBlock ext cfg vps block_index block voxel_index
                              (computeCoordinatesFromVoxelIndex ext block_index voxel_index))
                          cells (0, mesh, vertex_layer integ) of
                     Inl e \<Rightarrow> Inl e
                   | Inr (next_mesh_index, mesh', vl') \<Rightarrow>
                       Inr (integ\<lparr>vertex_layer := vl',
                                  mesh_layer := storeMesh block_index mesh' (mesh_layer integ)\<rparr>))))"

text \<open>
  \<^verbatim>\<open>updateBlockExterior\<close>: the running index starts at \<^verbatim>\<open>mesh->size()\<close>, the number of
  vertices; after the three faces the block is painted and marked as updated.
\<close>

definition updateBlockExterior ::
  "'p Externals \<Rightarrow> MeshIntegratorConfig \<Rightarrow> BlockIndex \<Rightarrow> 'p Integrator \<Rightarrow> error + 'p Integrator" where
  "updateBlockExterior ext cfg block_index integ =
     (case meshes (mesh_layer integ) block_index of
        None \<Rightarrow> Inl NullBlock
      | Some mesh \<Rightarrow>
          (case getBlockPtrByIndex (sdf_layer integ) block_index of
             None \<Rightarrow> Inl NullBlock
           | Some block \<Rightarrow>
               (let vps = voxels_per_side (sdf_layer integ)
                in case foldE (\<lambda>voxel_index.
                            extractMeshOnBorder ext cfg (sdf_layer integ) block_index block voxel_index
                              (computeCoordinatesFromVoxelIndex ext block_index voxel_index))
                          (exteriorCells (int vps)) (length (vertices mesh), mesh, vertex_layer integ) of
                     Inl e \<Rightarrow> Inl e
                   | Inr (next_mesh_index, mesh', vl') \<Rightarrow>
                       (case updateMeshColor ext cfg integ block mesh' block_index of
                          Inl e \<Rightarrow> Inl e
                        | Inr (mesh'', labels) \<Rightarrow>
                            Inr (integ\<lparr>vertex_layer := vl',
                                       mesh_layer :=
                                         storeMesh block_index (mesh''\<lparr>mesh_updated := True\<rparr>)
                                           (storeLabels block_index labels (mesh_layer integ))\<rparr>)))))"

section \<open>Work distribution\<close>

text \<open>
  Modelled from the spec: \<^verbatim>\<open>ThreadSafeIndex\<close> is voxblox's shared cursor over the block
  list, a monotonically advancing claim ticket. \<^verbatim>\<open>getNextIndex\<close> is one atomic step: it
  takes the current ticket and advances the cursor, and it answers with the ticket as
  long as the ticket is below the number of blocks.
\<close>

record ThreadSafeIndex =
  atomic_idx :: nat
  number_of_points :: nat

definition getNextIndex :: "ThreadSafeIndex \<Rightarrow> nat option \<times> ThreadSafeIndex" where
  "getNextIndex ig =
     ((if atomic_idx ig < number_of_points ig then Some (atomic_idx ig) else None),
      ig\<lparr>atomic_idx := Suc (atomic_idx ig)\<rparr>)"

text \<open>
  \<^verbatim>\<open>processInterior\<close> and \<^verbatim>\<open>processExterior\<close> are the same loop around a different block
  update: claim an index, update \<^verbatim>\<open>blocks[list_idx]\<close>, until no index is left.
\<close>

function processBlocks ::
  "(BlockIndex \<Rightarrow> 's \<Rightarrow> error + 's) \<Rightarrow> BlockIndex list \<Rightarrow> ThreadSafeIndex \<times> 's \<Rightarrow>
   error + (ThreadSafeIndex \<times> 's)" where
  "processBlocks upd blocks (ig, st) =
     (case getNextIndex ig of
        (None, ig') \<Rightarrow> Inr (ig', st)
      | (Some list_idx, ig') \<Rightarrow>
          if list_idx < length blocks then
            (case upd (blocks ! list_idx) st of
               Inl e \<Rightarrow> Inl e
             | Inr st' \<Rightarrow> processBlocks upd blocks (ig', st'))
          else Inl OutOfRange)"
  by pat_completeness auto
termination
  by (relation "measure (\<lambda>(upd, blocks, ig, st). number_of_points ig - atomic_idx ig)")
     (auto simp: getNextIndex_def split: if_splits)

definition processInterior ::
  "'p Externals \<Rightarrow> MeshIntegratorConfig \<Rightarrow> BlockIndex list \<Rightarrow> ThreadSafeIndex \<times> 'p Integrator \<Rightarrow>
   error + (ThreadSafeIndex \<times> 'p Integrator)" where
  "processInterior ext cfg blocks s = processBlocks (updateBlockInterior ext cfg) blocks s"

definition processExterior ::
  "'p Externals \<Rightarrow> MeshIntegratorConfig \<Rightarrow> BlockIndex list \<Rightarrow> ThreadSafeIndex \<times> 'p Integrator \<Rightarrow>
   error + (ThreadSafeIndex \<times> 'p Integrator)" where
  "processExterior ext cfg blocks s = processBlocks (updateBlockExterior ext cfg) blocks s"

text \<open>
  \<^verbatim>\<open>launchThreads\<close> starts \<^verbatim>\<open>integrator_threads\<close> workers on one shared cursor and joins
  them. In this function the workers run one after the other, which is one of the
  schedules of the thread pool; the schedules in general are the subject of the section
  on the scheduler below.
\<close>

definition launchThreads ::
  "'p Externals \<Rightarrow> MeshIntegratorConfig \<Rightarrow> BlockIndex list \<Rightarrow> bool \<Rightarrow> 'p Integrator \<Rightarrow>
   error + 'p Integrator" where
  "launchThreads ext cfg blocks interior_pass integ =
     (let index_getter = \<lparr>atomic_idx = 0, number_of_points = length blocks\<rparr>
      in case foldE (\<lambda>i. if interior_pass then processInterior ext cfg blocks
                          else processExterior ext cfg blocks)
              [0..<integrator_threads cfg] (index_getter, integ) of
           Inl e \<Rightarrow> Inl e
         | Inr (ig, integ') \<Rightarrow> Inr integ')"

section \<open>The thread pool under an arbitrary schedule\<close>

text \<open>
  The workers of \<^verbatim>\<open>launchThreads\<close> share one cursor. A schedule is the order in which the
  workers take their next step, a step being one pass through the loop header of
  \<^verbatim>\<open>processInterior\<close> or \<^verbatim>\<open>processExterior\<close>: the worker calls \<^verbatim>\<open>getNextIndex\<close>, and either
  claims the index it is given, which it then processes, or leaves its loop. The pool
  records for every worker whether it is still in its loop and the indices it claimed.
  \<^verbatim>\<open>launchThreads\<close> returns when every worker has left its loop.
\<close>

record Pool =
  cursor :: ThreadSafeIndex
  running :: "bool list"
  claimed :: "nat list list"

definition launchPool :: "nat \<Rightarrow> nat \<Rightarrow> Pool" where
  "launchPool t n =
     \<lparr>cursor = \<lparr>atomic_idx = 0, number_of_points = n\<rparr>,
      running = replicate t True,
      claimed = replicate t []\<rparr>"

definition workerStep :: "nat \<Rightarrow> Pool \<Rightarrow> Pool" where
  "workerStep w p =
     (if w < length (running p) \<and> running p ! w then
        (case getNextIndex (cursor p) of
           (Some list_idx, ig') \<Rightarrow>
             p\<lparr>cursor := ig', claimed := (claimed p)[w := claimed p ! w @ [list_idx]]\<rparr>
         | (None, ig') \<Rightarrow> p\<lparr>cursor := ig', running := (running p)[w := False]\<rparr>)
      else p)"

definition runSchedule :: "nat list \<Rightarrow> Pool \<Rightarrow> Pool" where
  "runSchedule sched p = fold workerStep sched p"

definition joined :: "Pool \<Rightarrow> bool" where
  "joined p = list_all (\<lambda>r. \<not> r) (running p)"

section \<open>generateMesh\<close>

text \<open>
  The candidate blocks, in the iteration order of the block map of the distance field.
  Modelled from the spec: \<^verbatim>\<open>getAllAllocatedBlocks\<close> lists every block of the layer and
  \<^verbatim>\<open>getAllUpdatedBlocks\<close> the blocks whose bitset holds the flag asked for.
\<close>

definition getAllAllocatedBlocks :: "'v Layer \<Rightarrow> BlockIndex list" where
  "getAllAllocatedBlocks layer = map fst (block_map layer)"

definition getAllUpdatedBlocks :: "'v Layer \<Rightarrow> Update \<Rightarrow> BlockIndex list" where
  "getAllUpdatedBlocks layer flag =
     map fst (filter (\<lambda>entry. flag \<in> updated (snd entry)) (block_map layer))"

definition candidateBlocks :: "bool \<Rightarrow> TsdfVoxel Layer \<Rightarrow> BlockIndex list" where
  "candidateBlocks only_mesh_updated_blocks layer =
     (if only_mesh_updated_blocks then getAllUpdatedBlocks layer kMesh
      else getAllAllocatedBlocks layer)"

text \<open>
  Modelled from the spec: \<^verbatim>\<open>SemanticMeshLayer::allocateBlock\<close> allocates the mesh entry of
  the block or fetches the one it has, and with semantics also the label sequence of the
  block; \<^verbatim>\<open>Mesh::clear\<close> empties the vertices, the triangle indices and the colours.
\<close>

definition emptyMesh :: "'p Mesh" where
  "emptyMesh = \<lparr>vertices = [], indices = [], colors = [], mesh_updated = False\<rparr>"

definition allocateBlock :: "BlockIndex \<Rightarrow> bool \<Rightarrow> 'p SemanticMeshLayer \<Rightarrow> 'p SemanticMeshLayer" where
  "allocateBlock idx use_semantics ml =
     ml\<lparr>meshes := (meshes ml)(idx \<mapsto> (case meshes ml idx of None \<Rightarrow> emptyMesh | Some m \<Rightarrow> m)),
        semantics :=
          (if use_semantics
           then (semantics ml)(idx \<mapsto> (case semantics ml idx of None \<Rightarrow> [] | Some ls \<Rightarrow> ls))
           else semantics ml)\<rparr>"

definition clearMesh :: "'p Mesh \<Rightarrow> 'p Mesh" where
  "clearMesh m = m\<lparr>vertices := [], indices := [], colors := []\<rparr>"

text \<open>
  Modelled from the spec: \<^verbatim>\<open>allocateBlockPtrByIndex\<close> of voxblox returns the block of the index and inserts a new
  block, of \<open>vps\<^sup>3\<close> default voxels, when there is none.
\<close>

definition allocateBlockPtrByIndex :: "'v \<Rightarrow> BlockIndex \<Rightarrow> 'v Layer \<Rightarrow> 'v Layer" where
  "allocateBlockPtrByIndex dflt idx layer =
     (case getBlockPtrByIndex layer idx of
        Some blk \<Rightarrow> layer
      | None \<Rightarrow>
          layer\<lparr>block_map := block_map layer @
                  [(idx, \<lparr>voxels = replicate (voxels_per_side layer ^ 3) dflt, updated = {}\<rparr>)]\<rparr>)"

text \<open>
  The body of the first loop of \<^verbatim>\<open>generateMesh\<close> for one block: the mesh entry is
  allocated and cleared, the vertex block is allocated, and the flag of every voxel of
  its array (\<^verbatim>\<open>num_voxels()\<close> many) is reset.
\<close>

definition resetBlock :: "VertexVoxel Block \<Rightarrow> VertexVoxel Block" where
  "resetBlock blk = blk\<lparr>voxels := map (\<lambda>v. v\<lparr>on_surface := False\<rparr>) (voxels blk)\<rparr>"

definition prepareBlock :: "BlockIndex \<Rightarrow> 'p Integrator \<Rightarrow> 'p Integrator" where
  "prepareBlock block_index integ =
     (let ml = allocateBlock block_index (semantic_layer integ \<noteq> None) (mesh_layer integ);
          ml' = (case meshes ml block_index of
                   None \<Rightarrow> ml
                 | Some mesh \<Rightarrow> storeMesh block_index (clearMesh mesh) ml);
          vl = allocateBlockPtrByIndex \<lparr>on_surface = False\<rparr> block_index (vertex_layer integ);
          vl' = vl\<lparr>block_map := AList.map_entry block_index resetBlock (block_map vl)\<rparr>
      in integ\<lparr>mesh_layer := ml', vertex_layer := vl'\<rparr>)"

definition prepareBlocks :: "BlockIndex list \<Rightarrow> 'p Integrator \<Rightarrow> 'p Integrator" where
  "prepareBlocks blocks integ = fold prepareBlock blocks integ"

text \<open>
  The last loop of \<^verbatim>\<open>generateMesh\<close>: \<^verbatim>\<open>updated().reset(Update::kMesh)\<close> on one block of
  the distance field.
\<close>

definition resetMeshBit :: "'v Block \<Rightarrow> 'v Block" where
  "resetMeshBit blk = blk\<lparr>updated := updated blk - {kMesh}\<rparr>"

definition clearUpdatedFlag :: "BlockIndex \<Rightarrow> 'p Integrator \<Rightarrow> error + 'p Integrator" where
  "clearUpdatedFlag block_idx integ =
     (case getBlockPtrByIndex (sdf_layer integ) block_idx of
        None \<Rightarrow> Inl NullBlock
      | Some block \<Rightarrow>
          Inr (integ\<lparr>sdf_layer := (sdf_layer integ)\<lparr>block_map :=
                 AList.map_entry block_idx resetMeshBit (block_map (sdf_layer integ))\<rparr>\<rparr>))"

definition generateMesh ::
  "'p Externals \<Rightarrow> MeshIntegratorConfig \<Rightarrow> bool \<Rightarrow> bool \<Rightarrow> 'p Integrator \<Rightarrow> error + 'p Integrator" where
  "generateMesh ext cfg only_mesh_updated_blocks clear_updated_flag integ =
     (let blocks = candidateBlocks only_mesh_updated_blocks (sdf_layer integ);
          integ1 = prepareBlocks blocks integ
      in case launchThreads ext cfg blocks True integ1 of
           Inl e \<Rightarrow> Inl e
         | Inr integ2 \<Rightarrow>
             (case launchThreads ext cfg blocks False integ2 of
                Inl e \<Rightarrow> Inl e
              | Inr integ3 \<Rightarrow>
                  if clear_updated_flag then foldE clearUpdatedFlag blocks integ3
                  else Inr integ3))"

section \<open>Well-formed layers\<close>

text \<open>
  The invariants of a voxblox layer that the theorems below assume: the array of every
  block holds \<open>vps\<^sup>3\<close> voxels, and the block map has one entry per block index.
\<close>

definition wfBlock :: "nat \<Rightarrow> 'v Block \<Rightarrow> bool" where
  "wfBlock vps blk = (length (voxels blk) = vps ^ 3)"

definition wfLayer :: "'v Layer \<Rightarrow> bool" where
  "wfLayer layer =
     (list_all (\<lambda>entry. wfBlock (voxels_per_side layer) (snd entry)) (block_map layer) \<and>
      distinct (map fst (block_map layer)))"

section \<open>Invariants of the passes\<close>

text \<open>
  Two predicates used in the proofs about \<^verbatim>\<open>generateMesh\<close>: a mesh entry is balanced
  when it has as many triangle indices as vertices, and a block is painted when its mesh
  entry is marked as updated, carries one colour per vertex and, with a semantic layer,
  one label per vertex, the label of the voxel that the lookup finds for the vertex.
\<close>

definition balancedAt :: "BlockIndex \<Rightarrow> 'p SemanticMeshLayer \<Rightarrow> bool" where
  "balancedAt b ml = (\<forall>m. meshes ml b = Some m \<longrightarrow> length (vertices m) = length (indices m))"

definition paintedBlock ::
  "'p Externals \<Rightarrow> 'p Integrator \<Rightarrow> BlockIndex \<Rightarrow> 'p SemanticMeshLayer \<Rightarrow> bool" where
  "paintedBlock ext st0 b ml =
     (\<exists>m block. meshes ml b = Some m \<and> getBlockPtrByIndex (sdf_layer st0) b = Some block \<and>
        mesh_updated m \<and> length (colors m) = length (vertices m) \<and>
        (semantic_layer st0 \<noteq> None \<longrightarrow>
           (\<exists>ls. semantics ml b = Some ls \<and> length ls = length (vertices m) \<and>
              (\<forall>i. i < length (vertices m) \<longrightarrow>
                 (\<exists>voxel sv. lookupVertexVoxels ext st0 block b (vertices m ! i) = Inr (voxel, Some sv) \<and>
                    ls ! i = semantic_label sv)))))"

text \<open>
  The relations used to compare two runs of \<^verbatim>\<open>generateMesh\<close>: two meshes with the same
  vertices, triangle indices and colours; two layers with the same voxel data, whatever
  their update flags; and two integrator states that agree on everything the passes read.
\<close>

definition meshEq :: "'p Mesh \<Rightarrow> 'p Mesh \<Rightarrow> bool" where
  "meshEq m1 m2 = (vertices m1 = vertices m2 \<and> indices m1 = indices m2 \<and> colors m1 = colors m2)"

definition sameVoxels :: "'v Layer \<Rightarrow> 'v Layer \<Rightarrow> bool" where
  "sameVoxels l1 l2 =
     (voxels_per_side l1 = voxels_per_side l2 \<and>
      (\<forall>b. map_option voxels (getBlockPtrByIndex l1 b) = map_option voxels (getBlockPtrByIndex l2 b)))"

definition meshStateRel :: "'p MeshState \<Rightarrow> 'p MeshState \<Rightarrow> bool" where
  "meshStateRel s1 s2 =
     (case s1 of (n1, m1, vl1) \<Rightarrow> case s2 of (n2, m2, vl2) \<Rightarrow>
        n1 = n2 \<and> meshEq m1 m2 \<and> (\<forall>c. hasBlock vl1 c = hasBlock vl2 c))"

definition simRel :: "'p Integrator \<Rightarrow> 'p Integrator \<Rightarrow> bool" where
  "simRel s1 s2 =
     (sameVoxels (sdf_layer s1) (sdf_layer s2) \<and>
      semantic_layer s1 = semantic_layer s2 \<and>
      (\<forall>c. hasBlock (vertex_layer s1) c = hasBlock (vertex_layer s2) c) \<and>
      (\<forall>c. rel_option meshEq (meshes (mesh_layer s1) c) (meshes (mesh_layer s2) c)) \<and>
      (\<forall>c. (semantics (mesh_layer s1) c = None) = (semantics (mesh_layer s2) c = None)))"

section \<open>Concrete instances\<close>

text \<open>
  Small instances on which the theorems below are exercised: blocks of two voxels per
  side, points as numbers, and a kernel that emits one triangle, anchored to the corners
  0, 1 and 3, when the corner distances change sign.
\<close>

definition demoExt :: "nat Externals" where
  "demoExt =
     \<lparr>computeCoordinatesFromVoxelIndex = (\<lambda>b v. 0),
      computeVoxelIndexFromCoordinates = (\<lambda>b p. (0, 0, 0)),
      computeBlockIndexFromCoordinates = (\<lambda>p. (0, 0, 0)),
      cube_coord_offsets = (\<lambda>p i. p + i),
      voxelColor = (\<lambda>v. (255, 0, 0, 255)),
      cubeVertices = (\<lambda>sdf coords.
        if list_ex (\<lambda>d. d < 0) sdf \<and> list_ex (\<lambda>d. 0 \<le> d) sdf
        then [(coords ! 0, 0), (coords ! 1, 1), (coords ! 3, 3)] else [])\<rparr>"

definition demoCfg :: MeshIntegratorConfig where
  "demoCfg = \<lparr>integrator_threads = 2, min_weight = 1\<rparr>"

definition demoVoxels :: "real \<Rightarrow> TsdfVoxel list" where
  "demoVoxels w =
     [\<lparr>distance = 1, weight = w\<rparr>, \<lparr>distance = - 1, weight = w\<rparr>,
      \<lparr>distance = - 1, weight = w\<rparr>, \<lparr>distance = - 1, weight = w\<rparr>,
      \<lparr>distance = - 1, weight = w\<rparr>, \<lparr>distance = - 1, weight = w\<rparr>,
      \<lparr>distance = - 1, weight = w\<rparr>, \<lparr>distance = - 1, weight = w\<rparr>]"

definition demoBlock :: "TsdfVoxel Block" where
  "demoBlock = \<lparr>voxels = demoVoxels 1, updated = {kMesh}\<rparr>"

definition holeBlock :: "TsdfVoxel Block" where
  "holeBlock = \<lparr>voxels = demoVoxels 0, updated = {kMesh}\<rparr>"

definition demoLayer :: "TsdfVoxel Layer" where
  "demoLayer = \<lparr>voxels_per_side = 2, block_map = [((0, 0, 0), demoBlock)]\<rparr>"

definition holeLayer :: "TsdfVoxel Layer" where
  "holeLayer = \<lparr>voxels_per_side = 2, block_map = [((0, 0, 0), holeBlock)]\<rparr>"

definition staleMarkers :: "VertexVoxel Block" where
  "staleMarkers =
     \<lparr>voxels = [\<lparr>on_surface = True\<rparr>, \<lparr>on_surface = False\<rparr>, \<lparr>on_surface = True\<rparr>,
                \<lparr>on_surface = False\<rparr>, \<lparr>on_surface = True\<rparr>, \<lparr>on_surface = False\<rparr>,
                \<lparr>on_surface = True\<rparr>, \<lparr>on_surface = False\<rparr>],
      updated = {}\<rparr>"

definition demoVertexLayer :: "VertexVoxel Layer" where
  "demoVertexLayer = \<lparr>voxels_per_side = 2, block_map = [((0, 0, 0), staleMarkers)]\<rparr>"

definition quietBlock :: "TsdfVoxel Block" where
  "quietBlock = \<lparr>voxels = demoVoxels 1, updated = {kMap}\<rparr>"

definition pairLayer :: "TsdfVoxel Layer" where
  "pairLayer = \<lparr>voxels_per_side = 2, block_map = [((0, 0, 0), demoBlock), ((1, 0, 0), quietBlock)]\<rparr>"

definition pairVertexLayer :: "VertexVoxel Layer" where
  "pairVertexLayer =
     \<lparr>voxels_per_side = 2, block_map = [((0, 0, 0), staleMarkers), ((1, 0, 0), staleMarkers)]\<rparr>"

definition demoSemanticBlock :: "SemanticVoxel Block" where
  "demoSemanticBlock =
     \<lparr>voxels = [\<lparr>semantic_label = 7\<rparr>, \<lparr>semantic_label = 1\<rparr>, \<lparr>semantic_label = 2\<rparr>,
                \<lparr>semantic_label = 3\<rparr>, \<lparr>semantic_label = 4\<rparr>, \<lparr>semantic_label = 5\<rparr>,
                \<lparr>semantic_label = 6\<rparr>, \<lparr>semantic_label = 8\<rparr>],
      updated = {}\<rparr>"

definition demoSemanticLayer :: "SemanticVoxel Layer" where
  "demoSemanticLayer =
     \<lparr>voxels_per_side = 2, block_map = [((0, 0, 0), demoSemanticBlock), ((1, 0, 0), demoSemanticBlock)]\<rparr>"

definition staleMesh :: "nat Mesh" where
  "staleMesh = \<lparr>vertices = [9, 9], indices = [0, 1], colors = [(1, 1, 1, 1)], mesh_updated = False\<rparr>"

definition demoIntegrator :: "nat Integrator" where
  "demoIntegrator =
     \<lparr>sdf_layer = pairLayer,
      vertex_layer = pairVertexLayer,
      mesh_layer = \<lparr>meshes = [(0, 0, 0) \<mapsto> staleMesh], semantics = [(0, 0, 0) \<mapsto> [5, 5, 5, 5, 5]]\<rparr>,
      semantic_layer = Some demoSemanticLayer\<rparr>"

section \<open>Properties of the exterior cell enumeration\<close>

lemma set_maxXCells:
  "set (maxXCells vps) = {(x, y, z). x = vps - 1 \<and> 0 \<le> y \<and> y < vps \<and> 0 \<le> z \<and> z < vps}"
  by (auto simp: maxXCells_def)

lemma set_maxYCells:
  "set (maxYCells vps) = {(x, y, z). 0 \<le> x \<and> x < vps - 1 \<and> y = vps - 1 \<and> 0 \<le> z \<and> z < vps}"
  by (auto simp: maxYCells_def)

lemma set_maxZCells:
  "set (maxZCells vps) = {(x, y, z). 0 \<le> x \<and> x < vps - 1 \<and> 0 \<le> y \<and> y < vps - 1 \<and> z = vps - 1}"
  by (force simp: maxZCells_def)







lemma corner_cases: "i < 8 \<Longrightarrow> i = 0 \<or> i = 1 \<or> i = 2 \<or> i = 3 \<or> i = 4 \<or> i = 5 \<or> i = 6 \<or> i = (7::nat)"
  by arith

lemma cube_index_offsets_bits:
  assumes "i < 8"
  shows "\<exists>a b c. cube_index_offsets i = (a, b, c) \<and> (a = 0 \<or> a = 1) \<and> (b = 0 \<or> b = 1) \<and> (c = 0 \<or> c = 1)"
  using corner_cases [OF assms] by (auto simp: cube_index_offsets_def)

lemma wrapAxis_in_range:
  assumes "0 \<le> c" "c < int vps" "d = 0 \<or> d = 1"
  shows "0 \<le> snd (wrapAxis vps (c + d)) \<and> snd (wrapAxis vps (c + d)) < int vps"
  using assms by (auto simp: wrapAxis_def)

lemma getNeighborBlockIndex_valid:
  assumes "isValidVoxelIndex vps index" and "i < 8"
  shows "isValidVoxelIndex vps (snd (getNeighborBlockIndex vps block_idx (add3 index (cube_index_offsets i))))"
proof -
  obtain x y z where idx: "index = (x, y, z)" by (cases index) auto
  obtain a b c where off: "cube_index_offsets i = (a, b, c)"
    and bits: "a = 0 \<or> a = 1" "b = 0 \<or> b = 1" "c = 0 \<or> c = 1"
    using cube_index_offsets_bits [OF assms(2)] by blast
  from assms(1) idx have r: "0 \<le> x" "x < int vps" "0 \<le> y" "y < int vps" "0 \<le> z" "z < int vps"
    by (auto simp: isValidVoxelIndex_def)
  show ?thesis
    using wrapAxis_in_range [OF r(1,2) bits(1)] wrapAxis_in_range [OF r(3,4) bits(2)]
      wrapAxis_in_range [OF r(5,6) bits(3)]
    by (auto simp: idx off add3_def getNeighborBlockIndex_def isValidVoxelIndex_def
        split: prod.splits)
qed

lemma linear_index_bound:
  assumes "isValidVoxelIndex vps idx"
  shows "computeLinearIndexFromVoxelIndex vps idx < vps ^ 3"
proof -
  obtain x y z where idx: "idx = (x, y, z)" by (cases idx) auto
  from assms idx have r: "0 \<le> x" "x < int vps" "0 \<le> y" "y < int vps" "0 \<le> z" "z < int vps"
    by (auto simp: isValidVoxelIndex_def)
  define n where "n = int vps"
  have "y + z * n \<le> (n - 1) + (n - 1) * n"
    using r unfolding n_def by (intro add_mono mult_right_mono) auto
  then have "n * (y + z * n) \<le> n * ((n - 1) + (n - 1) * n)"
    using r unfolding n_def by (intro mult_left_mono) auto
  then have "x + n * (y + z * n) < n * n * n"
    using r unfolding n_def by (simp add: algebra_simps)
  moreover have "0 \<le> x + n * (y + z * n)" using r unfolding n_def by simp
  ultimately have "nat (x + n * (y + z * n)) < nat (n * n * n)" by linarith
  then show ?thesis
    by (simp add: idx computeLinearIndexFromVoxelIndex_def n_def power3_eq_cube nat_mult_distrib)
qed

lemma getVoxelByVoxelIndex_ok:
  assumes "wfBlock vps blk" and "isValidVoxelIndex vps idx"
  shows "getVoxelByVoxelIndex vps blk idx = Inr (voxels blk ! computeLinearIndexFromVoxelIndex vps idx)"
  using assms linear_index_bound [OF assms(2)]
  by (simp add: getVoxelByVoxelIndex_def wfBlock_def)

lemma wfLayer_block:
  assumes "wfLayer layer" and "getBlockPtrByIndex layer b = Some blk"
  shows "wfBlock (voxels_per_side layer) blk"
proof -
  from assms(2) have "(b, blk) \<in> set (block_map layer)"
    by (simp add: getBlockPtrByIndex_def map_of_SomeD)
  with assms(1) show ?thesis
    by (auto simp: wfLayer_def list_all_iff)
qed

lemma borderCornerVoxel_no_error:
  assumes "wfLayer layer" and "wfBlock (voxels_per_side layer) block"
    and "isValidVoxelIndex (voxels_per_side layer) index" and "i < 8"
  shows "\<exists>r. borderCornerVoxel layer block_idx block index i = Inr r"
proof (cases "isValidVoxelIndex (voxels_per_side layer) (add3 index (cube_index_offsets i))")
  case True
  then show ?thesis
    using getVoxelByVoxelIndex_ok [OF assms(2) True]
    by (simp add: borderCornerVoxel_def Let_def)
next
  case False
  obtain nidx widx where n: "getNeighborBlockIndex (voxels_per_side layer) block_idx
      (add3 index (cube_index_offsets i)) = (nidx, widx)"
    by (cases "getNeighborBlockIndex (voxels_per_side layer) block_idx
      (add3 index (cube_index_offsets i))") auto
  have w: "isValidVoxelIndex (voxels_per_side layer) widx"
    using getNeighborBlockIndex_valid [OF assms(3,4), of block_idx] n by simp
  show ?thesis
  proof (cases "getBlockPtrByIndex layer nidx")
    case None
    then show ?thesis using False n by (simp add: borderCornerVoxel_def Let_def)
  next
    case (Some nb)
    have "wfBlock (voxels_per_side layer) nb" using wfLayer_block [OF assms(1) Some] .
    from getVoxelByVoxelIndex_ok [OF this w] show ?thesis
      using False n Some w by (simp add: borderCornerVoxel_def Let_def)
  qed
qed

lemma borderCorners_early:
  assumes "\<forall>j. j \<in> set js \<longrightarrow> (\<exists>r. borderCornerVoxel layer block_idx block index j = Inr r)"
    and "i \<in> set js"
    and "borderCornerVoxel layer block_idx block index i = Inr None \<or>
         (\<exists>v m. borderCornerVoxel layer block_idx block index i = Inr (Some (v, m)) \<and> weight v < mw)"
  shows "borderCorners ext mw layer block_idx block index point js acc = Inr None"
  using assms
proof (induction js arbitrary: acc)
  case Nil
  then show ?case by simp
next
  case (Cons j js)
  obtain sdf coords vox where acc: "acc = (sdf, coords, vox)" by (cases acc) auto
  from Cons.prems(1) obtain r where r: "borderCornerVoxel layer block_idx block index j = Inr r"
    by auto
  show ?case
  proof (cases r)
    case None
    then show ?thesis using r acc by simp
  next
    case (Some vm)
    obtain v m where vm: "vm = (v, m)" by (cases vm) auto
    show ?thesis
    proof (cases "weight v < mw")
      case True
      then show ?thesis using r acc Some vm by (simp add: getSdfIfValid_def)
    next
      case False
      with Cons.prems(2,3) r Some vm have "i \<in> set js" by auto
      with Cons.IH Cons.prems(1,3) have "\<And>acc'. borderCorners ext mw layer block_idx block index point js acc' = Inr None"
        by auto
      then show ?thesis using r acc Some vm False by (simp add: getSdfIfValid_def)
    qed
  qed
qed

lemma insideCorners_early:
  assumes "\<forall>j. j \<in> set js \<longrightarrow> (\<exists>v. getVoxelByVoxelIndex vps block (add3 index (cube_index_offsets j)) = Inr v)"
    and "i \<in> set js"
    and "\<exists>v. getVoxelByVoxelIndex vps block (add3 index (cube_index_offsets i)) = Inr v \<and> weight v < mw"
  shows "insideCorners ext mw vps block_idx block index point js acc = Inr None"
  using assms
proof (induction js arbitrary: acc)
  case Nil
  then show ?case by simp
next
  case (Cons j js)
  obtain sdf coords vox where acc: "acc = (sdf, coords, vox)" by (cases acc) auto
  from Cons.prems(1) obtain v where v: "getVoxelByVoxelIndex vps block (add3 index (cube_index_offsets j)) = Inr v"
    by auto
  show ?case
  proof (cases "weight v < mw")
    case True
    then show ?thesis using v acc by (simp add: getSdfIfValid_def)
  next
    case False
    with Cons.prems(2,3) v have "i \<in> set js" by auto
    with Cons.IH Cons.prems(1,3) have "\<And>acc'. insideCorners ext mw vps block_idx block index point js acc' = Inr None"
      by auto
    then show ?thesis using v acc False by (simp add: getSdfIfValid_def)
  qed
qed

lemma set_cornerNumbers: "set cornerNumbers = {i. i < 8}"
  by (auto simp: cornerNumbers_def)

lemma set_interiorCells:
  "set (interiorCells vps) = {(x, y, z). 0 \<le> x \<and> x < vps - 1 \<and> 0 \<le> y \<and> y < vps - 1 \<and> 0 \<le> z \<and> z < vps - 1}"
  by (force simp: interiorCells_def)

lemma interior_corner_valid:
  assumes "index \<in> set (interiorCells (int vps))" and "i < 8"
  shows "isValidVoxelIndex vps (add3 index (cube_index_offsets i))"
proof -
  obtain x y z where idx: "index = (x, y, z)" by (cases index) auto
  obtain a b c where off: "cube_index_offsets i = (a, b, c)"
    and bits: "a = 0 \<or> a = 1" "b = 0 \<or> b = 1" "c = 0 \<or> c = 1"
    using cube_index_offsets_bits [OF assms(2)] by blast
  from assms(1) idx bits show ?thesis
    by (auto simp: set_interiorCells off add3_def isValidVoxelIndex_def)
qed


lemma exteriorCells_valid:
  assumes "idx \<in> set (exteriorCells (int vps))"
  shows "isValidVoxelIndex vps idx"
  using assms
  by (auto simp: exteriorCells_def set_maxXCells set_maxYCells set_maxZCells isValidVoxelIndex_def)

lemma borderCornerVoxel_check:
  assumes "isValidVoxelIndex (voxels_per_side layer) index" and "i < 8"
  shows "borderCornerVoxel layer block_idx block index i \<noteq> Inl CheckFailed"
  using getNeighborBlockIndex_valid [OF assms, of block_idx]
  by (auto simp: borderCornerVoxel_def Let_def getVoxelByVoxelIndex_def
      split: prod.splits option.splits sum.splits if_splits)

lemma borderCorners_check:
  assumes "isValidVoxelIndex (voxels_per_side layer) index" and "\<forall>j. j \<in> set js \<longrightarrow> j < 8"
  shows "borderCorners ext mw layer block_idx block index point js acc \<noteq> Inl CheckFailed"
  using assms(2)
proof (induction js arbitrary: acc)
  case Nil
  then show ?case by simp
next
  case (Cons j js)
  obtain sdf coords vox where acc: "acc = (sdf, coords, vox)" by (cases acc) auto
  have "j < 8" using Cons.prems by simp
  from borderCornerVoxel_check [OF assms(1) this]
  have c: "borderCornerVoxel layer block_idx block index j \<noteq> Inl CheckFailed" .
  have ih: "\<And>acc'. borderCorners ext mw layer block_idx block index point js acc' \<noteq> Inl CheckFailed"
    using Cons.IH Cons.prems by simp
  show ?case
    using c ih by (auto simp: acc split: sum.splits option.splits prod.splits)
qed

text \<open>
  Claim C10. For a cell whose voxel index lies in \<open>[0, voxels_per_side)\<close> and for each of
  the eight cube corners, the corner index that \<^verbatim>\<open>getNeighborBlockIndex\<close> returns has every
  component in \<open>[0, voxels_per_side)\<close>; hence reading the corner never fails the \<^verbatim>\<open>CHECK\<close> on
  the neighbour block, and neither does the extraction of the cell.
\<close>

theorem neighbor_corner_index_valid:
  assumes "isValidVoxelIndex (voxels_per_side layer) index" and "i < 8"
  shows "isValidVoxelIndex (voxels_per_side layer)
           (snd (getNeighborBlockIndex (voxels_per_side layer) block_idx
                   (add3 index (cube_index_offsets i)))) \<and>
         borderCornerVoxel layer block_idx block index i \<noteq> Inl CheckFailed \<and>
         extractMeshOnBorder ext cfg layer block_idx block index point s \<noteq> Inl CheckFailed"
proof -
  have "borderCorners ext (min_weight cfg) layer block_idx block index point cornerNumbers
          ([], [], replicate 8 None) \<noteq> Inl CheckFailed"
    by (rule borderCorners_check [OF assms(1)]) (simp add: set_cornerNumbers)
  then have "extractMeshOnBorder ext cfg layer block_idx block index point s \<noteq> Inl CheckFailed"
    by (auto simp: extractMeshOnBorder_def split: prod.splits sum.splits option.splits)
  with getNeighborBlockIndex_valid [OF assms] borderCornerVoxel_check [OF assms]
  show ?thesis by simp
qed

text \<open>
  Claim C3. When one of the eight corner distance voxels of a cell has a weight below
  \<open>min_weight\<close>, the corner loop returns early: the Cube Sampler is not reached, and the
  mesh, the running vertex counter and the vertex markers are as before. This holds for
  the cells of the interior pass and for the cells of the exterior pass, whatever the
  kernel would emit.
\<close>

theorem low_weight_corner_skips_cell:
  "(index \<in> set (interiorCells (int vps)) \<and> wfBlock vps block \<and> hasBlock vl block_idx \<and> i < 8 \<and>
    getVoxelByVoxelIndex vps block (add3 index (cube_index_offsets i)) = Inr v \<and>
    weight v < min_weight cfg \<longrightarrow>
      insideCorners ext (min_weight cfg) vps block_idx block index point cornerNumbers
        ([], [], replicate 8 None) = Inr None \<and>
      extractMeshInsideBlock ext cfg vps block_idx block index point (next_index, mesh, vl) =
        Inr (next_index, mesh, vl)) \<and>
   (index \<in> set (exteriorCells (int (voxels_per_side layer))) \<and> wfLayer layer \<and>
    wfBlock (voxels_per_side layer) block \<and> hasBlock vl block_idx \<and> i < 8 \<and>
    borderCornerVoxel layer block_idx block index i = Inr (Some (v, marker)) \<and>
    weight v < min_weight cfg \<longrightarrow>
      borderCorners ext (min_weight cfg) layer block_idx block index point cornerNumbers
        ([], [], replicate 8 None) = Inr None \<and>
      extractMeshOnBorder ext cfg layer block_idx block index point (next_index, mesh, vl) =
        Inr (next_index, mesh, vl))"
proof (intro conjI impI)
  assume a: "index \<in> set (interiorCells (int vps)) \<and> wfBlock vps block \<and> hasBlock vl block_idx \<and> i < 8 \<and>
    getVoxelByVoxelIndex vps block (add3 index (cube_index_offsets i)) = Inr v \<and>
    weight v < min_weight cfg"
  then have cell: "index \<in> set (interiorCells (int vps))" and wb: "wfBlock vps block"
    and hb: "hasBlock vl block_idx" and i: "i < 8"
    and v: "getVoxelByVoxelIndex vps block (add3 index (cube_index_offsets i)) = Inr v"
    and w: "weight v < min_weight cfg"
    by blast+
  have ok: "\<forall>j. j \<in> set cornerNumbers \<longrightarrow>
      (\<exists>v. getVoxelByVoxelIndex vps block (add3 index (cube_index_offsets j)) = Inr v)"
  proof (intro allI impI)
    fix j assume "j \<in> set cornerNumbers"
    then have "j < 8" by (simp add: set_cornerNumbers)
    from getVoxelByVoxelIndex_ok [OF wb interior_corner_valid [OF cell this]]
    show "\<exists>v. getVoxelByVoxelIndex vps block (add3 index (cube_index_offsets j)) = Inr v"
      by blast
  qed
  have mem: "i \<in> set cornerNumbers" using i by (simp add: set_cornerNumbers)
  have low: "\<exists>v. getVoxelByVoxelIndex vps block (add3 index (cube_index_offsets i)) = Inr v \<and>
      weight v < min_weight cfg"
    using v w by blast
  show early: "insideCorners ext (min_weight cfg) vps block_idx block index point cornerNumbers
        ([], [], replicate 8 None) = Inr None"
    by (rule insideCorners_early [OF ok mem low])
  show "extractMeshInsideBlock ext cfg vps block_idx block index point (next_index, mesh, vl) =
        Inr (next_index, mesh, vl)"
    using hb early by (simp add: extractMeshInsideBlock_def)
next
  assume a: "index \<in> set (exteriorCells (int (voxels_per_side layer))) \<and> wfLayer layer \<and>
    wfBlock (voxels_per_side layer) block \<and> hasBlock vl block_idx \<and> i < 8 \<and>
    borderCornerVoxel layer block_idx block index i = Inr (Some (v, marker)) \<and>
    weight v < min_weight cfg"
  then have cell: "index \<in> set (exteriorCells (int (voxels_per_side layer)))"
    and wl: "wfLayer layer" and wb: "wfBlock (voxels_per_side layer) block"
    and hb: "hasBlock vl block_idx" and i: "i < 8"
    and v: "borderCornerVoxel layer block_idx block index i = Inr (Some (v, marker))"
    and w: "weight v < min_weight cfg"
    by blast+
  have valid: "isValidVoxelIndex (voxels_per_side layer) index"
    using cell by (rule exteriorCells_valid)
  have ok: "\<forall>j. j \<in> set cornerNumbers \<longrightarrow>
      (\<exists>r. borderCornerVoxel layer block_idx block index j = Inr r)"
    using borderCornerVoxel_no_error [OF wl wb valid] by (simp add: set_cornerNumbers)
  have mem: "i \<in> set cornerNumbers" using i by (simp add: set_cornerNumbers)
  have low: "borderCornerVoxel layer block_idx block index i = Inr None \<or>
         (\<exists>v m. borderCornerVoxel layer block_idx block index i = Inr (Some (v, m)) \<and>
                weight v < min_weight cfg)"
    using v w by blast
  show early: "borderCorners ext (min_weight cfg) layer block_idx block index point cornerNumbers
        ([], [], replicate 8 None) = Inr None"
    by (rule borderCorners_early [OF ok mem low])
  show "extractMeshOnBorder ext cfg layer block_idx block index point (next_index, mesh, vl) =
        Inr (next_index, mesh, vl)"
    using hb early by (simp add: extractMeshOnBorder_def)
qed

text \<open>
  Claim C4. When a corner of an exterior cell lies outside the block and the neighbour
  block computed for it is not allocated in the distance field, the extraction of the
  cell returns early: it is not an error, and the mesh, the counter and the vertex
  markers are as before.
\<close>

theorem missing_neighbor_skips_cell:
  assumes "index \<in> set (exteriorCells (int (voxels_per_side layer)))"
    and "wfLayer layer" and "wfBlock (voxels_per_side layer) block" and "hasBlock vl block_idx"
    and "i < 8"
    and "\<not> isValidVoxelIndex (voxels_per_side layer) (add3 index (cube_index_offsets i))"
    and "\<not> hasBlock layer (fst (getNeighborBlockIndex (voxels_per_side layer) block_idx
                                  (add3 index (cube_index_offsets i))))"
  shows "borderCorners ext (min_weight cfg) layer block_idx block index point cornerNumbers
           ([], [], replicate 8 None) = Inr None \<and>
         extractMeshOnBorder ext cfg layer block_idx block index point (next_index, mesh, vl) =
           Inr (next_index, mesh, vl)"
proof -
  have valid: "isValidVoxelIndex (voxels_per_side layer) index"
    using assms(1) by (rule exteriorCells_valid)
  have ok: "\<forall>j. j \<in> set cornerNumbers \<longrightarrow>
      (\<exists>r. borderCornerVoxel layer block_idx block index j = Inr r)"
    using borderCornerVoxel_no_error [OF assms(2,3) valid] by (simp add: set_cornerNumbers)
  have none: "borderCornerVoxel layer block_idx block index i = Inr None"
    using assms(6,7) by (auto simp: borderCornerVoxel_def Let_def hasBlock_def split: prod.splits)
  have mem: "i \<in> set cornerNumbers" using assms(5) by (simp add: set_cornerNumbers)
  have low: "borderCornerVoxel layer block_idx block index i = Inr None \<or>
         (\<exists>v m. borderCornerVoxel layer block_idx block index i = Inr (Some (v, m)) \<and>
                weight v < min_weight cfg)"
    using none by blast
  have early: "borderCorners ext (min_weight cfg) layer block_idx block index point cornerNumbers
        ([], [], replicate 8 None) = Inr None"
    by (rule borderCorners_early [OF ok mem low])
  then show ?thesis using assms(4) by (simp add: extractMeshOnBorder_def)
qed

lemma borderCornerVoxel_marker:
  assumes "borderCornerVoxel layer b block index i = Inr (Some (v, m))"
  shows "m = (if isValidVoxelIndex (voxels_per_side layer) (add3 index (cube_index_offsets i))
              then Some (b, computeLinearIndexFromVoxelIndex (voxels_per_side layer)
                               (add3 index (cube_index_offsets i)))
              else None)"
  using assms
  by (auto simp: borderCornerVoxel_def Let_def split: if_splits sum.splits prod.splits option.splits)

lemma borderCorners_markers:
  assumes "borderCorners ext mw layer b block index point js (sdf, coords, vox) =
             Inr (Some (sdf', coords', vox'))"
    and "length vox = 8" and "\<forall>j. j \<in> set js \<longrightarrow> j < 8"
  shows "length vox' = 8 \<and>
         (\<forall>i. i < 8 \<longrightarrow> vox' ! i =
            (if i \<in> set js \<and> isValidVoxelIndex (voxels_per_side layer) (add3 index (cube_index_offsets i))
             then Some (b, computeLinearIndexFromVoxelIndex (voxels_per_side layer)
                              (add3 index (cube_index_offsets i)))
             else vox ! i))"
  using assms
proof (induction js arbitrary: sdf coords vox)
  case Nil
  then show ?case by simp
next
  case (Cons j js)
  from Cons.prems(1) obtain v m d where
    bcv: "borderCornerVoxel layer b block index j = Inr (Some (v, m))"
    and d: "getSdfIfValid v mw = Some d"
    and rest: "borderCorners ext mw layer b block index point js
         (sdf @ [d], coords @ [cube_coord_offsets ext point j],
          (case m of None \<Rightarrow> vox | Some r \<Rightarrow> vox[j := Some r])) = Inr (Some (sdf', coords', vox'))"
    by (auto split: sum.splits option.splits prod.splits)
  let ?vox = "case m of None \<Rightarrow> vox | Some r \<Rightarrow> vox[j := Some r]"
  have len: "length ?vox = 8" using Cons.prems(2) by (simp split: option.splits)
  have js: "\<forall>k. k \<in> set js \<longrightarrow> k < 8" using Cons.prems(3) by simp
  have j8: "j < 8" using Cons.prems(3) by simp
  note ih = Cons.IH [OF rest len js]
  note m = borderCornerVoxel_marker [OF bcv]
  show ?case
  proof (intro conjI allI impI)
    show "length vox' = 8" using ih by simp
  next
    fix i :: nat assume i: "i < 8"
    from ih i have e: "vox' ! i =
            (if i \<in> set js \<and> isValidVoxelIndex (voxels_per_side layer) (add3 index (cube_index_offsets i))
             then Some (b, computeLinearIndexFromVoxelIndex (voxels_per_side layer)
                              (add3 index (cube_index_offsets i)))
             else ?vox ! i)" by blast
    show "vox' ! i =
            (if i \<in> set (j # js) \<and> isValidVoxelIndex (voxels_per_side layer) (add3 index (cube_index_offsets i))
             then Some (b, computeLinearIndexFromVoxelIndex (voxels_per_side layer)
                              (add3 index (cube_index_offsets i)))
             else vox ! i)"
      using e m i j8 Cons.prems(2) by (auto simp: nth_list_update split: if_splits)
  qed
qed

lemma markOnSurface_other:
  assumes "b' \<noteq> fst r"
  shows "getBlockPtrByIndex (markOnSurface r vl) b' = getBlockPtrByIndex vl b'"
  using assms
  by (cases r) (simp add: markOnSurface_def getBlockPtrByIndex_def map_of_map_entry)

lemma emitVertices_other:
  assumes "\<forall>c r. c < length vox \<longrightarrow> vox ! c = Some r \<longrightarrow> fst r = b" and "b' \<noteq> b"
  shows "getBlockPtrByIndex (snd (snd (emitVertices vox es (n, m, vl)))) b' = getBlockPtrByIndex vl b'"
  using assms
proof (induction es arbitrary: n m vl)
  case Nil
  then show ?case by simp
next
  case (Cons e es)
  obtain p c where e: "e = (p, c)" by (cases e) auto
  show ?case
    using Cons.IH [OF Cons.prems] Cons.prems
    by (auto simp: e markOnSurface_other split: option.splits)
qed

lemma extractMeshOnBorder_other:
  assumes "extractMeshOnBorder ext cfg layer b block index point (n, m, vl) = Inr (n', m', vl')"
    and "b' \<noteq> b"
  shows "getBlockPtrByIndex vl' b' = getBlockPtrByIndex vl b'"
proof (cases "borderCorners ext (min_weight cfg) layer b block index point cornerNumbers
                  ([], [], replicate 8 None)")
  case (Inl e)
  then show ?thesis using assms by (simp add: extractMeshOnBorder_def split: if_splits)
next
  case (Inr r)
  show ?thesis
  proof (cases r)
    case None
    then show ?thesis using assms Inr by (simp add: extractMeshOnBorder_def split: if_splits)
  next
    case (Some data)
    obtain sdf coords vox where data: "data = (sdf, coords, vox)" by (cases data) auto
    have mk: "length vox = 8 \<and>
         (\<forall>i. i < 8 \<longrightarrow> vox ! i =
            (if i \<in> set cornerNumbers \<and> isValidVoxelIndex (voxels_per_side layer) (add3 index (cube_index_offsets i))
             then Some (b, computeLinearIndexFromVoxelIndex (voxels_per_side layer)
                              (add3 index (cube_index_offsets i)))
             else replicate 8 None ! i))"
      by (rule borderCorners_markers [OF Inr [unfolded Some data]]) (simp_all add: set_cornerNumbers)
    have refs: "\<forall>c r. c < length vox \<longrightarrow> vox ! c = Some r \<longrightarrow> fst r = b"
      using mk by (auto split: if_splits)
    have "(n', m', vl') = emitVertices vox (cubeVertices ext sdf coords) (n, m, vl)"
      using assms(1) Inr Some data by (simp add: extractMeshOnBorder_def meshCube_def split: if_splits)
    then have "vl' = snd (snd (emitVertices vox (cubeVertices ext sdf coords) (n, m, vl)))"
      by (metis snd_conv)
    then show ?thesis using emitVertices_other [OF refs assms(2)] by simp
  qed
qed

lemma foldE_invariant:
  assumes "foldE f xs s = Inr s'" and "P s"
    and "\<And>x t t'. x \<in> set xs \<Longrightarrow> P t \<Longrightarrow> f x t = Inr t' \<Longrightarrow> P t'"
  shows "P s'"
  using assms
proof (induction xs arbitrary: s)
  case Nil
  then show ?case by simp
next
  case (Cons x xs)
  from Cons.prems(1) obtain t where t: "f x s = Inr t" and r: "foldE f xs t = Inr s'"
    by (auto split: sum.splits)
  have "P t" using Cons.prems(3) [of x s t] Cons.prems(2) t by simp
  show ?case
    by (rule Cons.IH [OF r \<open>P t\<close>]) (use Cons.prems(3) in auto)
qed

text \<open>
  Claim C5. In the exterior pass the marker reference handed to the Cube Sampler for a
  corner outside the block is null, and the reference for a corner inside the block
  points into the vertex block of the block itself; so remeshing the exterior of a block
  leaves the vertex block of every other block as it was.
\<close>

theorem exterior_markers_stay_in_block:
  "(borderCorners ext mw layer b block index point cornerNumbers ([], [], replicate 8 None) =
      Inr (Some (sdf, coords, vox)) \<and> i < 8 \<longrightarrow>
    vox ! i =
      (if isValidVoxelIndex (voxels_per_side layer) (add3 index (cube_index_offsets i))
       then Some (b, computeLinearIndexFromVoxelIndex (voxels_per_side layer)
                        (add3 index (cube_index_offsets i)))
       else None)) \<and>
   (updateBlockExterior ext cfg b integ = Inr integ' \<and> b' \<noteq> b \<longrightarrow>
    getBlockPtrByIndex (vertex_layer integ') b' = getBlockPtrByIndex (vertex_layer integ) b')"
proof (intro conjI impI)
  assume a: "borderCorners ext mw layer b block index point cornerNumbers ([], [], replicate 8 None) =
      Inr (Some (sdf, coords, vox)) \<and> i < 8"
  have "length vox = 8 \<and>
         (\<forall>i. i < 8 \<longrightarrow> vox ! i =
            (if i \<in> set cornerNumbers \<and> isValidVoxelIndex (voxels_per_side layer) (add3 index (cube_index_offsets i))
             then Some (b, computeLinearIndexFromVoxelIndex (voxels_per_side layer)
                              (add3 index (cube_index_offsets i)))
             else replicate 8 None ! i))"
    by (rule borderCorners_markers [of ext mw layer b block index point cornerNumbers "[]" "[]" _ sdf coords])
       (use a in \<open>simp_all add: set_cornerNumbers\<close>)
  with a show "vox ! i =
      (if isValidVoxelIndex (voxels_per_side layer) (add3 index (cube_index_offsets i))
       then Some (b, computeLinearIndexFromVoxelIndex (voxels_per_side layer)
                        (add3 index (cube_index_offsets i)))
       else None)"
    by (simp add: set_cornerNumbers)
next
  assume a: "updateBlockExterior ext cfg b integ = Inr integ' \<and> b' \<noteq> b"
  from a obtain mesh block n' mesh' vl' where
    f: "foldE (\<lambda>voxel_index.
                            extractMeshOnBorder ext cfg (sdf_layer integ) b block voxel_index
                              (computeCoordinatesFromVoxelIndex ext b voxel_index))
                          (exteriorCells (int (voxels_per_side (sdf_layer integ))))
              (length (vertices mesh), mesh, vertex_layer integ) = Inr (n', mesh', vl')"
    and v: "vertex_layer integ' = vl'"
    by (auto simp: updateBlockExterior_def Let_def split: option.splits sum.splits prod.splits)
  have step: "getBlockPtrByIndex (snd (snd t')) b' = getBlockPtrByIndex (vertex_layer integ) b'"
    if "getBlockPtrByIndex (snd (snd t)) b' = getBlockPtrByIndex (vertex_layer integ) b'"
      and "extractMeshOnBorder ext cfg (sdf_layer integ) b block x
             (computeCoordinatesFromVoxelIndex ext b x) t = Inr t'"
    for x t t'
  proof -
    obtain n m vl where t: "t = (n, m, vl)" by (cases t) auto
    obtain n2 m2 vl2 where t': "t' = (n2, m2, vl2)" by (cases t') auto
    from that(2) a have "getBlockPtrByIndex vl2 b' = getBlockPtrByIndex vl b'"
      unfolding t t' by (intro extractMeshOnBorder_other) auto
    with that(1) show ?thesis by (simp add: t t')
  qed
  have "getBlockPtrByIndex (snd (snd (n', mesh', vl'))) b' = getBlockPtrByIndex (vertex_layer integ) b'"
    by (rule foldE_invariant [OF f, where P = "\<lambda>t. getBlockPtrByIndex (snd (snd t)) b' = getBlockPtrByIndex (vertex_layer integ) b'"])
       (use step in \<open>auto\<close>)
  with v show "getBlockPtrByIndex (vertex_layer integ') b' = getBlockPtrByIndex (vertex_layer integ) b'"
    by simp
qed


lemma demo_interior_cell: "(0, 0, 0) \<in> set (interiorCells (int 2))"
  by (simp add: set_interiorCells)

lemma demo_exterior_cell: "(1, 0, 0) \<in> set (exteriorCells (int 2))"
  by (simp add: exteriorCells_def set_maxXCells)

theorem neighbor_corner_index_valid_witness:
  "isValidVoxelIndex 2 (1, 0, 0) \<and>
   getNeighborBlockIndex 2 (0, 0, 0) (add3 (1, 0, 0) (cube_index_offsets 1)) = ((1, 0, 0), (0, 0, 0)) \<and>
   isValidVoxelIndex 2 (snd (getNeighborBlockIndex 2 (0, 0, 0) (add3 (1, 0, 0) (cube_index_offsets 1)))) \<and>
   extractMeshOnBorder demoExt demoCfg demoLayer (0, 0, 0) demoBlock (1, 0, 0) 0
     (0, emptyMesh, demoVertexLayer) \<noteq> Inl CheckFailed"
proof -
  have h: "isValidVoxelIndex (voxels_per_side demoLayer) (1, 0, 0)"
    by (simp add: isValidVoxelIndex_def demoLayer_def)
  have v: "voxels_per_side demoLayer = 2" by (simp add: demoLayer_def)
  have n: "getNeighborBlockIndex 2 (0, 0, 0) (add3 (1, 0, 0) (cube_index_offsets 1)) = ((1, 0, 0), (0, 0, 0))"
    by (simp add: getNeighborBlockIndex_def add3_def cube_index_offsets_def wrapAxis_def)
  show ?thesis
    using neighbor_corner_index_valid [OF h, of 1 "(0, 0, 0)" demoBlock demoExt demoCfg 0
        "(0, emptyMesh, demoVertexLayer)"] h n
    by (simp add: v)
qed

theorem low_weight_corner_skips_cell_witness:
  "weight (voxels holeBlock ! 0) < min_weight demoCfg \<and>
   extractMeshInsideBlock demoExt demoCfg 2 (0, 0, 0) holeBlock (0, 0, 0) 0
     (0, emptyMesh, demoVertexLayer) = Inr (0, emptyMesh, demoVertexLayer) \<and>
   weight (voxels holeBlock ! 1) < min_weight demoCfg \<and>
   extractMeshOnBorder demoExt demoCfg holeLayer (0, 0, 0) holeBlock (1, 0, 0) 0
     (0, emptyMesh, demoVertexLayer) = Inr (0, emptyMesh, demoVertexLayer)"
proof -
  have w: "weight (voxels holeBlock ! 0) < min_weight demoCfg"
    "weight (voxels holeBlock ! 1) < min_weight demoCfg"
    by (simp_all add: holeBlock_def demoVoxels_def demoCfg_def)
  have wb: "wfBlock 2 holeBlock" by (simp add: wfBlock_def holeBlock_def demoVoxels_def)
  have wl: "wfLayer holeLayer" by (simp add: wfLayer_def holeLayer_def wb)
  have hb: "hasBlock demoVertexLayer (0, 0, 0)"
    by (simp add: hasBlock_def getBlockPtrByIndex_def demoVertexLayer_def)
  have v: "voxels_per_side holeLayer = 2" by (simp add: holeLayer_def)
  have g: "getVoxelByVoxelIndex 2 holeBlock (add3 (0, 0, 0) (cube_index_offsets 0)) =
             Inr (voxels holeBlock ! 0)"
    by (simp add: getVoxelByVoxelIndex_def add3_def cube_index_offsets_def isValidVoxelIndex_def
        computeLinearIndexFromVoxelIndex_def holeBlock_def demoVoxels_def)
  have c: "borderCornerVoxel holeLayer (0, 0, 0) holeBlock (1, 0, 0) 0 =
             Inr (Some (voxels holeBlock ! 1, Some ((0, 0, 0), 1)))"
    by (simp add: borderCornerVoxel_def holeLayer_def getVoxelByVoxelIndex_def add3_def
        cube_index_offsets_def isValidVoxelIndex_def computeLinearIndexFromVoxelIndex_def
        holeBlock_def demoVoxels_def)
  have inside: "extractMeshInsideBlock demoExt demoCfg 2 (0, 0, 0) holeBlock (0, 0, 0) 0
     (0, emptyMesh, demoVertexLayer) = Inr (0, emptyMesh, demoVertexLayer)"
    using low_weight_corner_skips_cell [of "(0, 0, 0)" 2 holeBlock demoVertexLayer "(0, 0, 0)" 0
        "voxels holeBlock ! 0" demoCfg demoExt 0 0 emptyMesh]
      demo_interior_cell wb hb g w(1) by simp
  have border: "extractMeshOnBorder demoExt demoCfg holeLayer (0, 0, 0) holeBlock (1, 0, 0) 0
     (0, emptyMesh, demoVertexLayer) = Inr (0, emptyMesh, demoVertexLayer)"
    using low_weight_corner_skips_cell [of "(1, 0, 0)" 2 holeBlock demoVertexLayer "(0, 0, 0)" 0
        "voxels holeBlock ! 1" demoCfg demoExt 0 0 emptyMesh holeLayer "Some ((0, 0, 0), 1)"]
      demo_exterior_cell wb wl hb c w(2) by (simp add: v)
  show ?thesis using w inside border by simp
qed

theorem missing_neighbor_skips_cell_witness:
  "\<not> isValidVoxelIndex 2 (add3 (1, 0, 0) (cube_index_offsets 1)) \<and>
   \<not> hasBlock demoLayer (fst (getNeighborBlockIndex 2 (0, 0, 0) (add3 (1, 0, 0) (cube_index_offsets 1)))) \<and>
   extractMeshOnBorder demoExt demoCfg demoLayer (0, 0, 0) demoBlock (1, 0, 0) 0
     (0, emptyMesh, demoVertexLayer) = Inr (0, emptyMesh, demoVertexLayer)"
proof -
  have wb: "wfBlock (voxels_per_side demoLayer) demoBlock"
    by (simp add: wfBlock_def demoBlock_def demoVoxels_def demoLayer_def)
  have wl: "wfLayer demoLayer" using wb by (simp add: wfLayer_def demoLayer_def)
  have hb: "hasBlock demoVertexLayer (0, 0, 0)"
    by (simp add: hasBlock_def getBlockPtrByIndex_def demoVertexLayer_def)
  have v: "voxels_per_side demoLayer = 2" by (simp add: demoLayer_def)
  have c: "(1, 0, 0) \<in> set (exteriorCells (int (voxels_per_side demoLayer)))"
    using demo_exterior_cell by (simp add: v)
  have i: "\<not> isValidVoxelIndex (voxels_per_side demoLayer) (add3 (1, 0, 0) (cube_index_offsets 1))"
    by (simp add: v add3_def cube_index_offsets_def isValidVoxelIndex_def)
  have n: "\<not> hasBlock demoLayer (fst (getNeighborBlockIndex (voxels_per_side demoLayer) (0, 0, 0)
              (add3 (1, 0, 0) (cube_index_offsets 1))))"
    by (simp add: v getNeighborBlockIndex_def add3_def cube_index_offsets_def wrapAxis_def
        hasBlock_def getBlockPtrByIndex_def demoLayer_def)
  have one: "(1::nat) < 8" by simp
  show ?thesis
    using missing_neighbor_skips_cell [OF c wl wb hb one i n, of demoExt demoCfg 0 0 emptyMesh] i n
    by (simp add: v)
qed



lemma cornerNumbers_list: "cornerNumbers = [0, 1, 2, 3, 4, 5, 6, 7]"
  by (simp add: cornerNumbers_def upt_rec)

lemma exteriorCells_2:
  "exteriorCells 2 = [(1, 0, 0), (1, 1, 0), (1, 0, 1), (1, 1, 1), (0, 1, 0), (0, 1, 1), (0, 0, 1)]"
  by (simp add: exteriorCells_def maxXCells_def maxYCells_def maxZCells_def upto.simps)

lemma interiorCells_2: "interiorCells 2 = [(0, 0, 0)]"
  by (simp add: interiorCells_def upto.simps)

lemmas demo_defs = demoIntegrator_def pairLayer_def pairVertexLayer_def demoSemanticLayer_def
  demoSemanticBlock_def staleMesh_def demoBlock_def quietBlock_def demoVoxels_def staleMarkers_def
  demoExt_def demoCfg_def

lemmas eval_defs = getBlockPtrByIndex_def hasBlock_def getVoxelByVoxelIndex_def
  computeLinearIndexFromVoxelIndex_def isValidVoxelIndex_def add3_def cube_index_offsets_def
  getNeighborBlockIndex_def wrapAxis_def getSdfIfValid_def getColorIfValid_def defaultColor_def
  markOnSurface_def meshCube_def borderCornerVoxel_def extractMeshOnBorder_def
  extractMeshInsideBlock_def lookupVertexVoxels_def paintVertex_def updateMeshColor_def
  storeMesh_def storeLabels_def resize_def truncateVoxelIndex_def getVoxelByCoordinates_def
  cornerNumbers_list

declare processBlocks.simps [simp del]

lemma processBlocks_sequential:
  assumes "number_of_points ig = length blocks"
  shows "processBlocks upd blocks (ig, st) =
     (case foldE upd (drop (atomic_idx ig) blocks) st of
        Inl e \<Rightarrow> Inl e
      | Inr st' \<Rightarrow> Inr (ig\<lparr>atomic_idx := Suc (max (length blocks) (atomic_idx ig))\<rparr>, st'))"
  using assms
proof (induction upd blocks "(ig, st)" arbitrary: ig st rule: processBlocks.induct)
  case (1 upd blocks ig st)
  show ?case
  proof (cases "atomic_idx ig < length blocks")
    case False
    then show ?thesis
      using "1.prems" by (subst processBlocks.simps) (simp add: getNextIndex_def max_def)
  next
    case True
    then have d: "drop (atomic_idx ig) blocks =
        blocks ! atomic_idx ig # drop (Suc (atomic_idx ig)) blocks"
      by (simp add: Cons_nth_drop_Suc)
    have g: "getNextIndex ig = (Some (atomic_idx ig), ig\<lparr>atomic_idx := Suc (atomic_idx ig)\<rparr>)"
      using True "1.prems" by (simp add: getNextIndex_def)
    show ?thesis
    proof (cases "upd (blocks ! atomic_idx ig) st")
      case (Inl e)
      then show ?thesis using True g d by (subst processBlocks.simps) simp
    next
      case (Inr st')
      have ih: "processBlocks upd blocks (ig\<lparr>atomic_idx := Suc (atomic_idx ig)\<rparr>, st') =
        (case foldE upd (drop (Suc (atomic_idx ig)) blocks) st' of
          Inl e \<Rightarrow> Inl e
        | Inr st'' \<Rightarrow> Inr (ig\<lparr>atomic_idx := Suc (max (length blocks) (Suc (atomic_idx ig)))\<rparr>, st''))"
        using "1.hyps" [OF g [symmetric] refl True Inr] "1.prems" by (simp split: sum.splits)
      have m: "max (length blocks) (Suc (atomic_idx ig)) = max (length blocks) (atomic_idx ig)"
        using True by simp
      show ?thesis
        using True g d Inr ih by (subst processBlocks.simps) (simp add: m split: sum.splits)
    qed
  qed
qed

lemma exhausted_workers:
  assumes "number_of_points ig = length blocks" and "length blocks \<le> atomic_idx ig"
  shows "\<exists>ig'. foldE (\<lambda>i. processBlocks upd blocks) ws (ig, st) = Inr (ig', st)"
  using assms
proof (induction ws arbitrary: ig)
  case Nil
  then show ?case by simp
next
  case (Cons w ws)
  let ?ig = "ig\<lparr>atomic_idx := Suc (max (length blocks) (atomic_idx ig))\<rparr>"
  have p: "processBlocks upd blocks (ig, st) = Inr (?ig, st)"
    using processBlocks_sequential [OF Cons.prems(1), of upd st] Cons.prems(2) by simp
  have "\<exists>ig'. foldE (\<lambda>i. processBlocks upd blocks) ws (?ig, st) = Inr (ig', st)"
    by (rule Cons.IH) (use Cons.prems in auto)
  then show ?case using p by simp
qed

lemma workers_sequential:
  "foldE (\<lambda>i. processBlocks upd blocks) [0..<t] (\<lparr>atomic_idx = 0, number_of_points = length blocks\<rparr>, st) =
     (if t = 0 then Inr (\<lparr>atomic_idx = 0, number_of_points = length blocks\<rparr>, st)
      else case foldE upd blocks st of
             Inl e \<Rightarrow> Inl e
           | Inr st' \<Rightarrow> Inr (fst (projr (foldE (\<lambda>i. processBlocks upd blocks) [0..<t]
                 (\<lparr>atomic_idx = 0, number_of_points = length blocks\<rparr>, st))), st'))"
proof (cases t)
  case 0
  then show ?thesis by simp
next
  case (Suc k)
  let ?ig0 = "\<lparr>atomic_idx = 0, number_of_points = length blocks\<rparr>"
  have u: "[0..<t] = 0 # [1..<t]" using Suc by (simp add: upt_rec)
  have p: "processBlocks upd blocks (?ig0, st) =
     (case foldE upd blocks st of
        Inl e \<Rightarrow> Inl e
      | Inr st' \<Rightarrow> Inr (?ig0\<lparr>atomic_idx := Suc (max (length blocks) 0)\<rparr>, st'))"
    using processBlocks_sequential [of ?ig0 blocks upd st] by (simp split: sum.splits)
  show ?thesis
  proof (cases "foldE upd blocks st")
    case (Inl e)
    then show ?thesis using Suc u p by simp
  next
    case (Inr st')
    obtain ig' where r: "foldE (\<lambda>i. processBlocks upd blocks) [1..<t]
        (?ig0\<lparr>atomic_idx := Suc (max (length blocks) 0)\<rparr>, st') = Inr (ig', st')"
      using exhausted_workers [of "?ig0\<lparr>atomic_idx := Suc (max (length blocks) 0)\<rparr>" blocks upd "[1..<t]" st']
      by auto
    show ?thesis using Suc u p Inr r by simp
  qed
qed

lemma launchThreads_sequential:
  "launchThreads ext cfg blocks interior_pass integ =
     (if integrator_threads cfg = 0 then Inr integ
      else foldE (if interior_pass then updateBlockInterior ext cfg else updateBlockExterior ext cfg)
             blocks integ)"
proof -
  let ?upd = "if interior_pass then updateBlockInterior ext cfg else updateBlockExterior ext cfg"
  have e: "(\<lambda>i. if interior_pass then processInterior ext cfg blocks else processExterior ext cfg blocks)
             = (\<lambda>i. processBlocks ?upd blocks)"
    by (auto simp: processInterior_def processExterior_def fun_eq_iff)
  show ?thesis
    unfolding launchThreads_def Let_def e
    by (subst workers_sequential) (auto split: sum.splits)
qed

lemma prepareBlock_sdf_layer [simp]: "sdf_layer (prepareBlock b st) = sdf_layer st"
  by (simp add: prepareBlock_def Let_def)

lemma prepareBlock_semantic_layer [simp]: "semantic_layer (prepareBlock b st) = semantic_layer st"
  by (simp add: prepareBlock_def Let_def)

lemma prepareBlock_vps [simp]:
  "voxels_per_side (vertex_layer (prepareBlock b st)) = voxels_per_side (vertex_layer st)"
  by (simp add: prepareBlock_def Let_def allocateBlockPtrByIndex_def split: option.splits)

lemma resetBlock_idem [simp]: "resetBlock (resetBlock blk) = resetBlock blk"
  by (simp add: resetBlock_def)

lemma clearMesh_idem [simp]: "clearMesh (clearMesh m) = clearMesh m"
  by (simp add: clearMesh_def)

lemma prepareBlock_vertex:
  "getBlockPtrByIndex (vertex_layer (prepareBlock b st)) b' =
     (if b' = b
      then Some (resetBlock (case getBlockPtrByIndex (vertex_layer st) b of
                    None \<Rightarrow> \<lparr>voxels = replicate (voxels_per_side (vertex_layer st) ^ 3) \<lparr>on_surface = False\<rparr>,
                              updated = {}\<rparr>
                  | Some blk \<Rightarrow> blk))
      else getBlockPtrByIndex (vertex_layer st) b')"
  by (auto simp: prepareBlock_def Let_def allocateBlockPtrByIndex_def getBlockPtrByIndex_def
      map_of_map_entry map_add_def split: option.splits)

lemma prepareBlock_meshes:
  "meshes (mesh_layer (prepareBlock b st)) b' =
     (if b' = b
      then Some (clearMesh (case meshes (mesh_layer st) b of None \<Rightarrow> emptyMesh | Some m \<Rightarrow> m))
      else meshes (mesh_layer st) b')"
  by (auto simp: prepareBlock_def Let_def allocateBlock_def storeMesh_def split: option.splits)

lemma prepareBlock_semantics:
  "semantics (mesh_layer (prepareBlock b st)) b' =
     (if b' = b \<and> semantic_layer st \<noteq> None
      then Some (case semantics (mesh_layer st) b of None \<Rightarrow> [] | Some ls \<Rightarrow> ls)
      else semantics (mesh_layer st) b')"
  by (auto simp: prepareBlock_def Let_def allocateBlock_def storeMesh_def split: option.splits)

lemma prepareBlocks_sdf_layer [simp]: "sdf_layer (prepareBlocks bs st) = sdf_layer st"
  unfolding prepareBlocks_def by (induction bs arbitrary: st) simp_all

lemma prepareBlocks_semantic_layer [simp]: "semantic_layer (prepareBlocks bs st) = semantic_layer st"
  unfolding prepareBlocks_def by (induction bs arbitrary: st) simp_all

lemma prepareBlocks_vps [simp]:
  "voxels_per_side (vertex_layer (prepareBlocks bs st)) = voxels_per_side (vertex_layer st)"
  unfolding prepareBlocks_def by (induction bs arbitrary: st) simp_all

lemma prepareBlocks_vertex:
  "getBlockPtrByIndex (vertex_layer (prepareBlocks bs st)) b =
     (if b \<in> set bs
      then Some (resetBlock (case getBlockPtrByIndex (vertex_layer st) b of
                    None \<Rightarrow> \<lparr>voxels = replicate (voxels_per_side (vertex_layer st) ^ 3) \<lparr>on_surface = False\<rparr>,
                              updated = {}\<rparr>
                  | Some blk \<Rightarrow> blk))
      else getBlockPtrByIndex (vertex_layer st) b)"
  unfolding prepareBlocks_def
proof (induction bs arbitrary: st)
  case Nil
  then show ?case by simp
next
  case (Cons a bs)
  show ?case
    by (simp add: Cons.IH prepareBlock_vertex split: option.splits)
qed

lemma prepareBlocks_meshes:
  "meshes (mesh_layer (prepareBlocks bs st)) b =
     (if b \<in> set bs
      then Some (clearMesh (case meshes (mesh_layer st) b of None \<Rightarrow> emptyMesh | Some m \<Rightarrow> m))
      else meshes (mesh_layer st) b)"
  unfolding prepareBlocks_def
proof (induction bs arbitrary: st)
  case Nil
  then show ?case by simp
next
  case (Cons a bs)
  show ?case
    by (simp add: Cons.IH prepareBlock_meshes split: option.splits)
qed

lemma prepareBlocks_semantics:
  "semantics (mesh_layer (prepareBlocks bs st)) b =
     (if b \<in> set bs \<and> semantic_layer st \<noteq> None
      then Some (case semantics (mesh_layer st) b of None \<Rightarrow> [] | Some ls \<Rightarrow> ls)
      else semantics (mesh_layer st) b)"
  unfolding prepareBlocks_def
proof (induction bs arbitrary: st)
  case Nil
  then show ?case by simp
next
  case (Cons a bs)
  show ?case
    by (simp add: Cons.IH prepareBlock_semantics split: option.splits)
qed

text \<open>
  Claim C8. The interior pass of \<^verbatim>\<open>generateMesh\<close> starts from the state that the first
  loop leaves. In that state every candidate block has a mesh entry without vertices,
  triangle indices and colours, and a vertex marker block, allocated with \<open>vps\<^sup>3\<close> voxels
  when it was absent, in which no voxel has the flag \<open>on_surface\<close>; so no flag of an
  earlier remesh of the block is left.
\<close>

theorem prepareBlocks_clears_candidates:
  assumes "b \<in> set (candidateBlocks only_updated (sdf_layer integ))"
  shows "(\<exists>m. meshes (mesh_layer (prepareBlocks (candidateBlocks only_updated (sdf_layer integ)) integ)) b = Some m \<and>
              vertices m = [] \<and> indices m = [] \<and> colors m = []) \<and>
         (\<exists>vb. getBlockPtrByIndex
                  (vertex_layer (prepareBlocks (candidateBlocks only_updated (sdf_layer integ)) integ)) b = Some vb \<and>
               list_all (\<lambda>v. \<not> on_surface v) (voxels vb) \<and>
               length (voxels vb) =
                 (case getBlockPtrByIndex (vertex_layer integ) b of
                    None \<Rightarrow> voxels_per_side (vertex_layer integ) ^ 3
                  | Some old \<Rightarrow> length (voxels old))) \<and>
         generateMesh ext cfg only_updated clear_flag integ =
           (case launchThreads ext cfg (candidateBlocks only_updated (sdf_layer integ)) True
                   (prepareBlocks (candidateBlocks only_updated (sdf_layer integ)) integ) of
              Inl e \<Rightarrow> Inl e
            | Inr integ2 \<Rightarrow>
                (case launchThreads ext cfg (candidateBlocks only_updated (sdf_layer integ)) False integ2 of
                   Inl e \<Rightarrow> Inl e
                 | Inr integ3 \<Rightarrow>
                     if clear_flag
                     then foldE clearUpdatedFlag (candidateBlocks only_updated (sdf_layer integ)) integ3
                     else Inr integ3))"
proof (intro conjI)
  show "\<exists>m. meshes (mesh_layer (prepareBlocks (candidateBlocks only_updated (sdf_layer integ)) integ)) b = Some m \<and>
              vertices m = [] \<and> indices m = [] \<and> colors m = []"
    using assms by (simp add: prepareBlocks_meshes clearMesh_def)
  show "\<exists>vb. getBlockPtrByIndex
                  (vertex_layer (prepareBlocks (candidateBlocks only_updated (sdf_layer integ)) integ)) b = Some vb \<and>
               list_all (\<lambda>v. \<not> on_surface v) (voxels vb) \<and>
               length (voxels vb) =
                 (case getBlockPtrByIndex (vertex_layer integ) b of
                    None \<Rightarrow> voxels_per_side (vertex_layer integ) ^ 3
                  | Some old \<Rightarrow> length (voxels old))"
    using assms by (simp add: prepareBlocks_vertex resetBlock_def list_all_iff split: option.splits)
  show "generateMesh ext cfg only_updated clear_flag integ =
           (case launchThreads ext cfg (candidateBlocks only_updated (sdf_layer integ)) True
                   (prepareBlocks (candidateBlocks only_updated (sdf_layer integ)) integ) of
              Inl e \<Rightarrow> Inl e
            | Inr integ2 \<Rightarrow>
                (case launchThreads ext cfg (candidateBlocks only_updated (sdf_layer integ)) False integ2 of
                   Inl e \<Rightarrow> Inl e
                 | Inr integ3 \<Rightarrow>
                     if clear_flag
                     then foldE clearUpdatedFlag (candidateBlocks only_updated (sdf_layer integ)) integ3
                     else Inr integ3))"
    by (simp add: generateMesh_def Let_def)
qed

lemma updateBlockInterior_frame:
  assumes "updateBlockInterior ext cfg b st = Inr st'"
  shows "sdf_layer st' = sdf_layer st" and "semantic_layer st' = semantic_layer st"
    and "semantics (mesh_layer st') = semantics (mesh_layer st)"
    and "b' \<noteq> b \<Longrightarrow> meshes (mesh_layer st') b' = meshes (mesh_layer st) b'"
  using assms
  by (auto simp: updateBlockInterior_def Let_def storeMesh_def
      split: option.splits sum.splits prod.splits if_splits)

lemma updateBlockExterior_frame:
  assumes "updateBlockExterior ext cfg b st = Inr st'"
  shows "sdf_layer st' = sdf_layer st" and "semantic_layer st' = semantic_layer st"
    and "b' \<noteq> b \<Longrightarrow> semantics (mesh_layer st') b' = semantics (mesh_layer st) b'"
    and "b' \<noteq> b \<Longrightarrow> meshes (mesh_layer st') b' = meshes (mesh_layer st) b'"
  using assms
  by (auto simp: updateBlockExterior_def Let_def storeMesh_def storeLabels_def
      split: option.splits sum.splits prod.splits if_splits)

lemma launchThreads_layers:
  assumes "launchThreads ext cfg blocks ip st = Inr st'"
  shows "sdf_layer st' = sdf_layer st \<and> semantic_layer st' = semantic_layer st"
proof (cases "integrator_threads cfg = 0")
  case True
  then show ?thesis using assms by (simp add: launchThreads_sequential)
next
  case False
  let ?upd = "if ip then updateBlockInterior ext cfg else updateBlockExterior ext cfg"
  have f: "foldE ?upd blocks st = Inr st'"
    using assms False by (simp add: launchThreads_sequential)
  show ?thesis
    by (rule foldE_invariant [OF f, where P = "\<lambda>t. sdf_layer t = sdf_layer st \<and> semantic_layer t = semantic_layer st"])
       (auto simp: updateBlockInterior_frame updateBlockExterior_frame split: if_splits)
qed

lemma clearUpdatedFlags_effect:
  assumes "foldE clearUpdatedFlag bs st = Inr st'"
  shows "(\<forall>b. getBlockPtrByIndex (sdf_layer st') b =
            (if b \<in> set bs then map_option resetMeshBit (getBlockPtrByIndex (sdf_layer st) b)
             else getBlockPtrByIndex (sdf_layer st) b)) \<and>
         map fst (block_map (sdf_layer st')) = map fst (block_map (sdf_layer st)) \<and>
         voxels_per_side (sdf_layer st') = voxels_per_side (sdf_layer st) \<and>
         vertex_layer st' = vertex_layer st \<and> mesh_layer st' = mesh_layer st \<and>
         semantic_layer st' = semantic_layer st"
  using assms
proof (induction bs arbitrary: st)
  case Nil
  then show ?case by simp
next
  case (Cons a bs)
  from Cons.prems obtain t where t: "clearUpdatedFlag a st = Inr t" and r: "foldE clearUpdatedFlag bs t = Inr st'"
    by (auto split: sum.splits)
  have keys: "map fst (AList.map_entry a f xs) = map fst xs" for f :: "TsdfVoxel Block \<Rightarrow> TsdfVoxel Block" and xs
    by (induction xs) auto
  from t have t1: "\<forall>b. getBlockPtrByIndex (sdf_layer t) b =
      (if b = a then map_option resetMeshBit (getBlockPtrByIndex (sdf_layer st) b)
       else getBlockPtrByIndex (sdf_layer st) b)"
    and t2: "map fst (block_map (sdf_layer t)) = map fst (block_map (sdf_layer st))"
    and t3: "voxels_per_side (sdf_layer t) = voxels_per_side (sdf_layer st)"
      "vertex_layer t = vertex_layer st" "mesh_layer t = mesh_layer st"
      "semantic_layer t = semantic_layer st"
    by (auto simp: clearUpdatedFlag_def getBlockPtrByIndex_def map_of_map_entry resetMeshBit_def keys
        split: option.splits)
  have idem: "map_option resetMeshBit (map_option resetMeshBit x) = map_option resetMeshBit x"
    for x :: "TsdfVoxel Block option"
    by (cases x) (simp_all add: resetMeshBit_def)
  from Cons.IH [OF r] t1 t2 t3 show ?case
    by (auto simp: idem)
qed

lemma candidate_sets:
  assumes "distinct (map fst (block_map layer))"
  shows "set (getAllUpdatedBlocks layer kMesh) =
           {b. \<exists>blk. getBlockPtrByIndex layer b = Some blk \<and> kMesh \<in> updated blk}"
    and "set (getAllAllocatedBlocks layer) = {b. hasBlock layer b}"
proof -
  show "set (getAllUpdatedBlocks layer kMesh) =
           {b. \<exists>blk. getBlockPtrByIndex layer b = Some blk \<and> kMesh \<in> updated blk}"
    using assms
    by (auto simp: getAllUpdatedBlocks_def getBlockPtrByIndex_def image_iff
        dest: map_of_SomeD)
  show "set (getAllAllocatedBlocks layer) = {b. hasBlock layer b}"
    by (auto simp: getAllAllocatedBlocks_def hasBlock_def getBlockPtrByIndex_def
        map_of_eq_None_iff image_iff)
qed

lemma emitVertices_mesh:
  "emitVertices vox es (n, m, vl) =
     (n + length es,
      m\<lparr>vertices := vertices m @ map fst es, indices := indices m @ [n..<n + length es]\<rparr>,
      snd (snd (emitVertices vox es (n, m, vl))))"
proof (induction es arbitrary: n m vl)
  case Nil
  then show ?case by simp
next
  case (Cons e es)
  obtain p c where e: "e = (p, c)" by (cases e) auto
  show ?case
    unfolding e emitVertices.simps
    by (subst Cons.IH) (simp add: upt_conv_Cons del: upt_Suc)
qed

lemma emitVertices_parts:
  assumes "emitVertices vox es (n, m, vl) = (n', m', vl')"
  shows "n' = n + length es"
    and "m' = m\<lparr>vertices := vertices m @ map fst es, indices := indices m @ [n..<n + length es]\<rparr>"
  using assms emitVertices_mesh [of vox es n m vl] by simp_all

lemma foldE_append:
  "foldE f (xs @ ys) s = (case foldE f xs s of Inl e \<Rightarrow> Inl e | Inr t \<Rightarrow> foldE f ys t)"
  by (induction xs arbitrary: s) (auto split: sum.splits)

lemma extractMeshInsideBlock_shape:
  assumes "extractMeshInsideBlock ext cfg vps b block idx pt (n, m :: 'p Mesh, vl) = Inr (n', m', vl')"
  shows "\<exists>es :: ('p \<times> nat) list. n' = n + length es \<and>
              m' = m\<lparr>vertices := vertices m @ map fst es, indices := indices m @ [n..<n + length es]\<rparr>"
proof (cases "insideCorners ext (min_weight cfg) vps b block idx pt cornerNumbers ([], [], replicate 8 None)")
  case (Inl e)
  then show ?thesis using assms by (simp add: extractMeshInsideBlock_def split: if_splits)
next
  case (Inr r)
  show ?thesis
  proof (cases r)
    case None
    then have "n' = n \<and> m' = m" using assms Inr by (simp add: extractMeshInsideBlock_def split: if_splits)
    then show ?thesis by (intro exI [of _ "[]"]) simp
  next
    case (Some data)
    obtain sdf coords vox where data: "data = (sdf, coords, vox)" by (cases data) auto
    have "emitVertices vox (cubeVertices ext sdf coords) (n, m, vl) = (n', m', vl')"
      using assms Inr Some data by (simp add: extractMeshInsideBlock_def meshCube_def split: if_splits)
    from emitVertices_parts [OF this] show ?thesis by blast
  qed
qed

lemma extractMeshOnBorder_shape:
  assumes "extractMeshOnBorder ext cfg layer b block idx pt (n, m :: 'p Mesh, vl) = Inr (n', m', vl')"
  shows "\<exists>es :: ('p \<times> nat) list. n' = n + length es \<and>
              m' = m\<lparr>vertices := vertices m @ map fst es, indices := indices m @ [n..<n + length es]\<rparr>"
proof (cases "borderCorners ext (min_weight cfg) layer b block idx pt cornerNumbers ([], [], replicate 8 None)")
  case (Inl e)
  then show ?thesis using assms by (simp add: extractMeshOnBorder_def split: if_splits)
next
  case (Inr r)
  show ?thesis
  proof (cases r)
    case None
    then have "n' = n \<and> m' = m" using assms Inr by (simp add: extractMeshOnBorder_def split: if_splits)
    then show ?thesis by (intro exI [of _ "[]"]) simp
  next
    case (Some data)
    obtain sdf coords vox where data: "data = (sdf, coords, vox)" by (cases data) auto
    have "emitVertices vox (cubeVertices ext sdf coords) (n, m, vl) = (n', m', vl')"
      using assms Inr Some data by (simp add: extractMeshOnBorder_def meshCube_def split: if_splits)
    from emitVertices_parts [OF this] show ?thesis by blast
  qed
qed

text \<open>The part of a mesh that the cell loops never change, and the balance they keep.\<close>

lemma cells_keep_balance:
  assumes "foldE f cells (n, m :: 'p Mesh, vl :: VertexVoxel Layer) = Inr (n', m', vl')"
    and "\<And>x n m vl n' m' vl'. f x (n, m, vl) = Inr (n', m', vl') \<Longrightarrow>
           \<exists>es :: ('p \<times> nat) list. n' = n + length es \<and>
              m' = m\<lparr>vertices := vertices m @ map fst es, indices := indices m @ [n..<n + length es]\<rparr>"
  shows "colors m' = colors m \<and> mesh_updated m' = mesh_updated m \<and>
         (length (vertices m) = length (indices m) \<longrightarrow> length (vertices m') = length (indices m'))"
proof -
  have "(\<lambda>t. colors (fst (snd t)) = colors m \<and> mesh_updated (fst (snd t)) = mesh_updated m \<and>
         (length (vertices m) = length (indices m) \<longrightarrow>
            length (vertices (fst (snd t))) = length (indices (fst (snd t))))) (n', m', vl')"
  proof (rule foldE_invariant [OF assms(1)])
    show "colors (fst (snd (n, m, vl))) = colors m \<and> mesh_updated (fst (snd (n, m, vl))) = mesh_updated m \<and>
         (length (vertices m) = length (indices m) \<longrightarrow>
            length (vertices (fst (snd (n, m, vl)))) = length (indices (fst (snd (n, m, vl)))))"
      by simp
  next
    fix x t t'
    assume p: "colors (fst (snd t)) = colors m \<and> mesh_updated (fst (snd t)) = mesh_updated m \<and>
         (length (vertices m) = length (indices m) \<longrightarrow>
            length (vertices (fst (snd t))) = length (indices (fst (snd t))))"
      and f: "f x t = Inr t'"
    obtain n1 m1 vl1 where t: "t = (n1, m1, vl1)" by (cases t) auto
    obtain n2 m2 vl2 where t': "t' = (n2, m2, vl2)" by (cases t') auto
    from assms(2) [OF f [unfolded t t']] obtain es :: "('p \<times> nat) list" where
      "m2 = m1\<lparr>vertices := vertices m1 @ map fst es, indices := indices m1 @ [n1..<n1 + length es]\<rparr>"
      by blast
    with p show "colors (fst (snd t')) = colors m \<and> mesh_updated (fst (snd t')) = mesh_updated m \<and>
         (length (vertices m) = length (indices m) \<longrightarrow>
            length (vertices (fst (snd t'))) = length (indices (fst (snd t'))))"
      by (simp add: t t')
  qed
  then show ?thesis by simp
qed

lemma lookupVertexVoxels_cong:
  assumes "sdf_layer st = sdf_layer st0" and "semantic_layer st = semantic_layer st0"
  shows "lookupVertexVoxels ext st block b v = lookupVertexVoxels ext st0 block b v"
  unfolding lookupVertexVoxels_def assms by (rule refl)

lemma lookupVertexVoxels_semantic:
  assumes "lookupVertexVoxels ext st block b v = Inr (voxel, sem)"
  shows "(sem = None) = (semantic_layer st = None)"
  using assms
  by (auto simp: lookupVertexVoxels_def Let_def split: if_splits sum.splits option.splits)

lemma paintVertex_step:
  assumes "paintVertex ext cfg st block b verts i (cols, labels) = Inr (cols', labels')"
  shows "length cols' = length cols \<and> i < length cols \<and>
         (\<exists>voxel sem. lookupVertexVoxels ext st block b (verts ! i) = Inr (voxel, sem) \<and>
            (case sem of
               None \<Rightarrow> labels' = labels
             | Some sv \<Rightarrow> (\<exists>ls. labels = Some ls \<and> i < length ls \<and>
                             labels' = Some (ls[i := semantic_label sv]))))"
  using assms
  by (auto simp: paintVertex_def Let_def split: sum.splits prod.splits if_splits option.splits)

lemma paint_loop:
  assumes "foldE (paintVertex ext cfg st block b verts) [0..<k] (cols0, labels0) = Inr (cols, labels)"
  shows "length cols = length cols0 \<and> (0 < k \<longrightarrow> k \<le> length cols0) \<and>
         rel_option (\<lambda>l0 l. length l = length l0) labels0 labels \<and>
         (semantic_layer st \<noteq> None \<longrightarrow>
            (\<forall>i. i < k \<longrightarrow> (\<exists>ls voxel sv. labels = Some ls \<and> i < length ls \<and>
                 lookupVertexVoxels ext st block b (verts ! i) = Inr (voxel, Some sv) \<and>
                 ls ! i = semantic_label sv)))"
  using assms
proof (induction k arbitrary: cols labels)
  case 0
  then show ?case by (cases labels0) auto
next
  case (Suc k)
  from Suc.prems obtain colsk labelsk where
    pre: "foldE (paintVertex ext cfg st block b verts) [0..<k] (cols0, labels0) = Inr (colsk, labelsk)"
    and last: "paintVertex ext cfg st block b verts k (colsk, labelsk) = Inr (cols, labels)"
    by (auto simp: foldE_append split: sum.splits)
  note ih = Suc.IH [OF pre]
  from paintVertex_step [OF last] obtain voxel sem where
    len: "length cols = length colsk" and k: "k < length colsk"
    and lk: "lookupVertexVoxels ext st block b (verts ! k) = Inr (voxel, sem)"
    and lab: "case sem of
               None \<Rightarrow> labels = labelsk
             | Some sv \<Rightarrow> (\<exists>ls. labelsk = Some ls \<and> k < length ls \<and>
                             labels = Some (ls[k := semantic_label sv]))"
    by blast
  have sem: "(sem = None) = (semantic_layer st = None)"
    using lookupVertexVoxels_semantic [OF lk] .
  show ?case
  proof (intro conjI impI allI)
    show "length cols = length cols0" using ih len by simp
    show "Suc k \<le> length cols0" using ih k by simp
    show "rel_option (\<lambda>l0 l. length l = length l0) labels0 labels"
      using ih lab by (cases sem; cases labels0; cases labelsk) auto
  next
    fix i assume s: "semantic_layer st \<noteq> None" and i: "i < Suc k"
    from s sem obtain sv where sv: "sem = Some sv" by (cases sem) auto
    from lab sv obtain lsk where lsk: "labelsk = Some lsk" "k < length lsk"
      "labels = Some (lsk[k := semantic_label sv])" by auto
    show "\<exists>ls voxel sv. labels = Some ls \<and> i < length ls \<and>
                 lookupVertexVoxels ext st block b (verts ! i) = Inr (voxel, Some sv) \<and>
                 ls ! i = semantic_label sv"
    proof (cases "i = k")
      case True
      then show ?thesis using lsk lk sv by simp
    next
      case False
      with i have "i < k" by simp
      with ih s obtain ls voxel' sv' where "labelsk = Some ls" "i < length ls"
        "lookupVertexVoxels ext st block b (verts ! i) = Inr (voxel', Some sv')"
        "ls ! i = semantic_label sv'" by blast
      then show ?thesis using lsk False by auto
    qed
  qed
qed

lemma updateMeshColor_result:
  assumes "updateMeshColor ext cfg st block mesh b = Inr (mesh'', labels)"
  shows "vertices mesh'' = vertices mesh \<and> indices mesh'' = indices mesh \<and>
         mesh_updated mesh'' = mesh_updated mesh \<and>
         length (colors mesh'') = length (indices mesh) \<and>
         (semantic_layer st = None \<longrightarrow> labels = None) \<and>
         (semantic_layer st \<noteq> None \<longrightarrow>
            (\<exists>ls. labels = Some ls \<and> length ls = length (indices mesh) \<and>
               (\<forall>i. i < length (vertices mesh) \<longrightarrow>
                  (\<exists>voxel sv. lookupVertexVoxels ext st block b (vertices mesh ! i) = Inr (voxel, Some sv) \<and>
                     i < length ls \<and> ls ! i = semantic_label sv))))"
proof -
  let ?n = "length (indices mesh)"
  from assms obtain labels0 cols where
    l0: "(case semantic_layer st of
                 None \<Rightarrow> Inr None
               | Some sl \<Rightarrow>
                   (case semantics (mesh_layer st) b of
                      None \<Rightarrow> Inl NullBlock
                    | Some ls \<Rightarrow> Inr (Some (resize ?n 0 ls)))) = Inr labels0"
    and f: "foldE (paintVertex ext cfg st block b (vertices mesh)) [0..<length (vertices mesh)]
               (replicate ?n defaultColor, labels0) = Inr (cols, labels)"
    and m: "mesh'' = mesh\<lparr>colors := cols\<rparr>"
    by (auto simp: updateMeshColor_def Let_def split: sum.splits prod.splits)
  note p = paint_loop [OF f]
  have none: "semantic_layer st = None \<Longrightarrow> labels0 = None"
    using l0 by simp
  have some: "semantic_layer st \<noteq> None \<Longrightarrow> \<exists>ls0. labels0 = Some ls0 \<and> length ls0 = ?n"
    using l0 by (auto simp: resize_def split: option.splits)
  show ?thesis
  proof (intro conjI impI)
    show "vertices mesh'' = vertices mesh" "indices mesh'' = indices mesh"
      "mesh_updated mesh'' = mesh_updated mesh" using m by simp_all
    show "length (colors mesh'') = length (indices mesh)" using m p by simp
    show "labels = None" if "semantic_layer st = None"
      using none [OF that] p by (cases labels) auto
  next
    assume s: "semantic_layer st \<noteq> None"
    from some [OF s] obtain ls0 where ls0: "labels0 = Some ls0" "length ls0 = ?n" by blast
    with p obtain ls where ls: "labels = Some ls" "length ls = ?n"
      by (cases labels) auto
    show "\<exists>ls. labels = Some ls \<and> length ls = length (indices mesh) \<and>
               (\<forall>i. i < length (vertices mesh) \<longrightarrow>
                  (\<exists>voxel sv. lookupVertexVoxels ext st block b (vertices mesh ! i) = Inr (voxel, Some sv) \<and>
                     i < length ls \<and> ls ! i = semantic_label sv))"
      using p s ls by fastforce
  qed
qed

lemma updateBlockInterior_result:
  assumes "updateBlockInterior ext cfg b st = Inr st'"
  shows "st' = st \<or>
         (\<exists>mesh mesh'. meshes (mesh_layer st) b = Some mesh \<and> meshes (mesh_layer st') b = Some mesh' \<and>
            colors mesh' = colors mesh \<and> mesh_updated mesh' = mesh_updated mesh \<and>
            (length (vertices mesh) = length (indices mesh) \<longrightarrow>
               length (vertices mesh') = length (indices mesh')))"
proof (cases "meshes (mesh_layer st) b")
  case None
  then show ?thesis using assms
    by (auto simp: updateBlockInterior_def Let_def split: option.splits if_splits)
next
  case (Some mesh)
  from assms Some obtain block n' mesh' vl' where
    f: "foldE (\<lambda>voxel_index.
                  extractMeshInsideBlock ext cfg (voxels_per_side (sdf_layer st)) b block voxel_index
                    (computeCoordinatesFromVoxelIndex ext b voxel_index))
                (interiorCells (int (voxels_per_side (sdf_layer st)))) (0, mesh, vertex_layer st) =
          Inr (n', mesh', vl')"
    and st': "st' = st\<lparr>vertex_layer := vl', mesh_layer := storeMesh b mesh' (mesh_layer st)\<rparr>"
    by (auto simp: updateBlockInterior_def Let_def split: option.splits sum.splits prod.splits)
  have "colors mesh' = colors mesh \<and> mesh_updated mesh' = mesh_updated mesh \<and>
         (length (vertices mesh) = length (indices mesh) \<longrightarrow> length (vertices mesh') = length (indices mesh'))"
    by (rule cells_keep_balance [OF f]) (rule extractMeshInsideBlock_shape)
  then show ?thesis using Some st' by (simp add: storeMesh_def)
qed

lemma balancedAtD:
  assumes "balancedAt b ml" and "meshes ml b = Some m"
  shows "length (vertices m) = length (indices m)"
  using assms unfolding balancedAt_def by blast

lemma updateBlockInterior_balanced:
  assumes "updateBlockInterior ext cfg a st = Inr st'" and "balancedAt b (mesh_layer st)"
  shows "balancedAt b (mesh_layer st')"
  unfolding balancedAt_def
proof (intro allI impI)
  fix m assume m: "meshes (mesh_layer st') b = Some m"
  show "length (vertices m) = length (indices m)"
  proof (cases "b = a")
    case False
    then show ?thesis
      using updateBlockInterior_frame(4) [OF assms(1) False] m balancedAtD [OF assms(2), of m]
      by simp
  next
    case True
    from updateBlockInterior_result [OF assms(1)] show ?thesis
      using m True balancedAtD [OF assms(2)] by auto
  qed
qed

lemma updateBlockExterior_result:
  assumes "updateBlockExterior ext cfg b st = Inr st'"
  shows "\<exists>mesh block m'. meshes (mesh_layer st) b = Some mesh \<and>
           getBlockPtrByIndex (sdf_layer st) b = Some block \<and>
           meshes (mesh_layer st') b = Some m' \<and> mesh_updated m' \<and>
           length (colors m') = length (indices m') \<and>
           (length (vertices mesh) = length (indices mesh) \<longrightarrow>
              length (vertices m') = length (indices m')) \<and>
           (semantic_layer st = None \<longrightarrow> semantics (mesh_layer st') = semantics (mesh_layer st)) \<and>
           (semantic_layer st \<noteq> None \<longrightarrow>
              (\<exists>ls. semantics (mesh_layer st') b = Some ls \<and> length ls = length (indices m') \<and>
                 (\<forall>i. i < length (vertices m') \<longrightarrow>
                    (\<exists>voxel sv. lookupVertexVoxels ext st block b (vertices m' ! i) = Inr (voxel, Some sv) \<and>
                       i < length ls \<and> ls ! i = semantic_label sv))))"
proof -
  from assms obtain mesh block n' mesh' vl' mesh'' labels where
    mesh: "meshes (mesh_layer st) b = Some mesh"
    and block: "getBlockPtrByIndex (sdf_layer st) b = Some block"
    and f: "foldE (\<lambda>voxel_index.
                  extractMeshOnBorder ext cfg (sdf_layer st) b block voxel_index
                    (computeCoordinatesFromVoxelIndex ext b voxel_index))
                (exteriorCells (int (voxels_per_side (sdf_layer st))))
                (length (vertices mesh), mesh, vertex_layer st) = Inr (n', mesh', vl')"
    and c: "updateMeshColor ext cfg st block mesh' b = Inr (mesh'', labels)"
    and st': "st' = st\<lparr>vertex_layer := vl',
                 mesh_layer := storeMesh b (mesh''\<lparr>mesh_updated := True\<rparr>)
                                 (storeLabels b labels (mesh_layer st))\<rparr>"
    by (auto simp: updateBlockExterior_def Let_def split: option.splits sum.splits prod.splits)
  have bal: "colors mesh' = colors mesh \<and> mesh_updated mesh' = mesh_updated mesh \<and>
         (length (vertices mesh) = length (indices mesh) \<longrightarrow> length (vertices mesh') = length (indices mesh'))"
    by (rule cells_keep_balance [OF f]) (rule extractMeshOnBorder_shape)
  note r = updateMeshColor_result [OF c]
  have m': "meshes (mesh_layer st') b = Some (mesh''\<lparr>mesh_updated := True\<rparr>)"
    using st' by (simp add: storeMesh_def)
  have sem: "semantics (mesh_layer st') = semantics (storeLabels b labels (mesh_layer st))"
    using st' by (simp add: storeMesh_def)
  let ?m = "mesh''\<lparr>mesh_updated := True\<rparr>"
  have g1: "length (colors ?m) = length (indices ?m)" using r by simp
  have g2: "length (vertices mesh) = length (indices mesh) \<longrightarrow>
              length (vertices ?m) = length (indices ?m)"
    using r bal by simp
  have g3: "semantic_layer st = None \<longrightarrow> semantics (mesh_layer st') = semantics (mesh_layer st)"
    using r sem by (simp add: storeLabels_def)
  have g4: "semantic_layer st \<noteq> None \<longrightarrow>
              (\<exists>ls. semantics (mesh_layer st') b = Some ls \<and> length ls = length (indices ?m) \<and>
                 (\<forall>i. i < length (vertices ?m) \<longrightarrow>
                    (\<exists>voxel sv. lookupVertexVoxels ext st block b (vertices ?m ! i) = Inr (voxel, Some sv) \<and>
                       i < length ls \<and> ls ! i = semantic_label sv)))"
  proof
    assume s: "semantic_layer st \<noteq> None"
    with r obtain ls where ls: "labels = Some ls" "length ls = length (indices mesh')"
      and lab: "\<forall>i. i < length (vertices mesh') \<longrightarrow>
                  (\<exists>voxel sv. lookupVertexVoxels ext st block b (vertices mesh' ! i) = Inr (voxel, Some sv) \<and>
                     i < length ls \<and> ls ! i = semantic_label sv)"
      by blast
    have "semantics (mesh_layer st') b = Some ls" using sem ls by (simp add: storeLabels_def)
    moreover have "length ls = length (indices ?m)" using ls r by simp
    moreover have "\<forall>i. i < length (vertices ?m) \<longrightarrow>
                    (\<exists>voxel sv. lookupVertexVoxels ext st block b (vertices ?m ! i) = Inr (voxel, Some sv) \<and>
                       i < length ls \<and> ls ! i = semantic_label sv)"
      using lab r by simp
    ultimately show "\<exists>ls. semantics (mesh_layer st') b = Some ls \<and> length ls = length (indices ?m) \<and>
                 (\<forall>i. i < length (vertices ?m) \<longrightarrow>
                    (\<exists>voxel sv. lookupVertexVoxels ext st block b (vertices ?m ! i) = Inr (voxel, Some sv) \<and>
                       i < length ls \<and> ls ! i = semantic_label sv))"
      by blast
  qed
  have g0: "mesh_updated ?m" by simp
  show ?thesis
    apply (rule exI [of _ mesh])
    apply (rule exI [of _ block])
    apply (rule exI [of _ ?m])
    using mesh block m' g0 g1 g2 g3 g4 by (intro conjI)
qed

lemma updateBlockExterior_balanced:
  assumes "updateBlockExterior ext cfg a st = Inr st'" and "balancedAt b (mesh_layer st)"
  shows "balancedAt b (mesh_layer st')"
  unfolding balancedAt_def
proof (intro allI impI)
  fix m assume m: "meshes (mesh_layer st') b = Some m"
  show "length (vertices m) = length (indices m)"
  proof (cases "b = a")
    case False
    then show ?thesis
      using updateBlockExterior_frame(4) [OF assms(1) False] m balancedAtD [OF assms(2), of m]
      by simp
  next
    case True
    from updateBlockExterior_result [OF assms(1)] show ?thesis
      using m True balancedAtD [OF assms(2)] by auto
  qed
qed

lemma updateBlockExterior_paints:
  assumes "updateBlockExterior ext cfg b st = Inr st'" and "balancedAt b (mesh_layer st)"
    and "sdf_layer st = sdf_layer st0" and "semantic_layer st = semantic_layer st0"
  shows "paintedBlock ext st0 b (mesh_layer st')"
proof -
  from updateBlockExterior_result [OF assms(1)] obtain mesh block m' where
    r: "meshes (mesh_layer st) b = Some mesh"
       "getBlockPtrByIndex (sdf_layer st) b = Some block"
       "meshes (mesh_layer st') b = Some m'" "mesh_updated m'"
       "length (colors m') = length (indices m')"
       "length (vertices mesh) = length (indices mesh) \<longrightarrow> length (vertices m') = length (indices m')"
       "semantic_layer st \<noteq> None \<longrightarrow>
              (\<exists>ls. semantics (mesh_layer st') b = Some ls \<and> length ls = length (indices m') \<and>
                 (\<forall>i. i < length (vertices m') \<longrightarrow>
                    (\<exists>voxel sv. lookupVertexVoxels ext st block b (vertices m' ! i) = Inr (voxel, Some sv) \<and>
                       i < length ls \<and> ls ! i = semantic_label sv)))"
    by blast
  have bal: "length (vertices m') = length (indices m')"
    using r(6) balancedAtD [OF assms(2) r(1)] by simp
  have lk: "lookupVertexVoxels ext st block b v = lookupVertexVoxels ext st0 block b v" for v
    by (rule lookupVertexVoxels_cong [OF assms(3,4)])
  show ?thesis
    unfolding paintedBlock_def
    using r(2,3,4,5,7) bal assms(3,4) by (auto simp: lk)
qed

lemma paintedBlock_other:
  assumes "paintedBlock ext st0 b (mesh_layer st)"
    and "updateBlockExterior ext cfg b' st = Inr st'" and "b' \<noteq> b"
  shows "paintedBlock ext st0 b (mesh_layer st')"
  using assms(1) updateBlockExterior_frame(3,4) [OF assms(2), of b] assms(3)
  by (simp add: paintedBlock_def)

lemma exterior_pass_paints:
  assumes "foldE (updateBlockExterior ext cfg) bs st = Inr st'"
    and "\<forall>a. a \<in> set bs \<longrightarrow> balancedAt a (mesh_layer st)"
    and "sdf_layer st = sdf_layer st0" and "semantic_layer st = semantic_layer st0"
    and "b \<in> set bs \<or> paintedBlock ext st0 b (mesh_layer st)"
  shows "paintedBlock ext st0 b (mesh_layer st')"
  using assms
proof (induction bs arbitrary: st)
  case Nil
  then show ?case by simp
next
  case (Cons a bs)
  from Cons.prems(1) obtain t where t: "updateBlockExterior ext cfg a st = Inr t"
    and r: "foldE (updateBlockExterior ext cfg) bs t = Inr st'"
    by (auto split: sum.splits)
  have bal: "\<forall>c. c \<in> set bs \<longrightarrow> balancedAt c (mesh_layer t)"
    using updateBlockExterior_balanced [OF t] Cons.prems(2) by (simp del: split_paired_All)
  have ba: "balancedAt a (mesh_layer st)" using Cons.prems(2) by (simp del: split_paired_All)
  have l: "sdf_layer t = sdf_layer st0" "semantic_layer t = semantic_layer st0"
    using updateBlockExterior_frame(1,2) [OF t] Cons.prems(3,4) by simp_all
  have "b \<in> set bs \<or> paintedBlock ext st0 b (mesh_layer t)"
  proof (cases "a = b")
    case True
    then show ?thesis
      using updateBlockExterior_paints [OF t ba Cons.prems(3,4)] by simp
  next
    case False
    then show ?thesis
      using Cons.prems(5) paintedBlock_other [OF _ t False] by auto
  qed
  from Cons.IH [OF r bal l this] show ?case .
qed

lemma candidate_allocated:
  assumes "b \<in> set (candidateBlocks only_updated layer)"
  shows "\<exists>block. getBlockPtrByIndex layer b = Some block"
proof -
  from assms have "b \<in> fst ` set (block_map layer)"
    by (auto simp: candidateBlocks_def getAllUpdatedBlocks_def getAllAllocatedBlocks_def
        split: if_splits)
  then show ?thesis
    by (cases "map_of (block_map layer) b") (auto simp: getBlockPtrByIndex_def map_of_eq_None_iff)
qed

lemma generateMesh_stages:
  assumes "generateMesh ext cfg only_updated clear_flag integ = Inr integ'"
  shows "\<exists>st2 st3. launchThreads ext cfg (candidateBlocks only_updated (sdf_layer integ)) True
                     (prepareBlocks (candidateBlocks only_updated (sdf_layer integ)) integ) = Inr st2 \<and>
           launchThreads ext cfg (candidateBlocks only_updated (sdf_layer integ)) False st2 = Inr st3 \<and>
           (if clear_flag
            then foldE clearUpdatedFlag (candidateBlocks only_updated (sdf_layer integ)) st3 = Inr integ'
            else integ' = st3)"
  using assms by (auto simp: generateMesh_def Let_def split: sum.splits if_splits)

lemma generateMesh_mesh_layer:
  assumes "generateMesh ext cfg only_updated clear_flag integ = Inr integ'"
  shows "\<exists>st2 st3. launchThreads ext cfg (candidateBlocks only_updated (sdf_layer integ)) True
                     (prepareBlocks (candidateBlocks only_updated (sdf_layer integ)) integ) = Inr st2 \<and>
           launchThreads ext cfg (candidateBlocks only_updated (sdf_layer integ)) False st2 = Inr st3 \<and>
           mesh_layer integ' = mesh_layer st3 \<and> vertex_layer integ' = vertex_layer st3"
proof -
  from generateMesh_stages [OF assms] obtain st2 st3 where
    s: "launchThreads ext cfg (candidateBlocks only_updated (sdf_layer integ)) True
                     (prepareBlocks (candidateBlocks only_updated (sdf_layer integ)) integ) = Inr st2"
       "launchThreads ext cfg (candidateBlocks only_updated (sdf_layer integ)) False st2 = Inr st3"
       "if clear_flag
            then foldE clearUpdatedFlag (candidateBlocks only_updated (sdf_layer integ)) st3 = Inr integ'
            else integ' = st3"
    by blast
  have "mesh_layer integ' = mesh_layer st3 \<and> vertex_layer integ' = vertex_layer st3"
  proof (cases clear_flag)
    case True
    with s(3) clearUpdatedFlags_effect show ?thesis by fastforce
  next
    case False
    with s(3) show ?thesis by simp
  qed
  with s(1,2) show ?thesis by blast
qed

lemma interior_pass_balanced:
  assumes "foldE (updateBlockInterior ext cfg) bs st = Inr st'" and "balancedAt b (mesh_layer st)"
  shows "balancedAt b (mesh_layer st')"
  by (rule foldE_invariant [OF assms(1), where P = "\<lambda>t. balancedAt b (mesh_layer t)"])
     (use assms(2) in \<open>blast intro: updateBlockInterior_balanced\<close>)+

lemma prepareBlocks_balanced:
  assumes "b \<in> set bs"
  shows "balancedAt b (mesh_layer (prepareBlocks bs st))"
  using assms by (simp add: balancedAt_def prepareBlocks_meshes clearMesh_def)

text \<open>
  Claim C2. When \<^verbatim>\<open>generateMesh\<close> finishes, the mesh entry of every candidate block has as
  many colours as vertices, and with a semantic layer the label sequence of the block
  holds at the index of each vertex the label of the semantic voxel that the
  nearest-neighbour lookup finds for that vertex.
\<close>

theorem generateMesh_colors_match_vertices:
  assumes "generateMesh ext cfg only_updated clear_flag integ = Inr integ'"
    and "b \<in> set (candidateBlocks only_updated (sdf_layer integ))"
  shows "\<exists>m block. meshes (mesh_layer integ') b = Some m \<and>
           getBlockPtrByIndex (sdf_layer integ) b = Some block \<and>
           length (colors m) = length (vertices m) \<and>
           (semantic_layer integ \<noteq> None \<longrightarrow>
              (\<exists>ls. semantics (mesh_layer integ') b = Some ls \<and>
                 (\<forall>i. i < length (vertices m) \<longrightarrow>
                    i < length ls \<and>
                    (\<exists>voxel sv. lookupVertexVoxels ext integ block b (vertices m ! i) = Inr (voxel, Some sv) \<and>
                       ls ! i = semantic_label sv))))"
proof -
  let ?bs = "candidateBlocks only_updated (sdf_layer integ)"
  let ?st1 = "prepareBlocks ?bs integ"
  from generateMesh_mesh_layer [OF assms(1)] obtain st2 st3 where
    p1: "launchThreads ext cfg ?bs True ?st1 = Inr st2"
    and p2: "launchThreads ext cfg ?bs False st2 = Inr st3"
    and ml: "mesh_layer integ' = mesh_layer st3"
    by blast
  from candidate_allocated [OF assms(2)] obtain block where
    block: "getBlockPtrByIndex (sdf_layer integ) b = Some block" by blast
  show ?thesis
  proof (cases "integrator_threads cfg = 0")
    case True
    with p1 p2 have "st3 = ?st1" by (simp add: launchThreads_sequential)
    with ml have e: "mesh_layer integ' = mesh_layer ?st1" by simp
    have m: "meshes (mesh_layer integ') b =
        Some (clearMesh (case meshes (mesh_layer integ) b of None \<Rightarrow> emptyMesh | Some m \<Rightarrow> m))"
      using assms(2) by (simp add: e prepareBlocks_meshes)
    have s: "semantic_layer integ \<noteq> None \<longrightarrow> (\<exists>ls. semantics (mesh_layer integ') b = Some ls)"
      using assms(2) by (simp add: e prepareBlocks_semantics)
    show ?thesis
      using m s block by (auto simp: clearMesh_def)
  next
    case False
    from p1 False have f1: "foldE (updateBlockInterior ext cfg) ?bs ?st1 = Inr st2"
      by (simp add: launchThreads_sequential)
    from p2 False have f2: "foldE (updateBlockExterior ext cfg) ?bs st2 = Inr st3"
      by (simp add: launchThreads_sequential)
    have l2: "sdf_layer st2 = sdf_layer integ" "semantic_layer st2 = semantic_layer integ"
      using launchThreads_layers [OF p1] by simp_all
    have bal: "\<forall>a. a \<in> set ?bs \<longrightarrow> balancedAt a (mesh_layer st2)"
      using interior_pass_balanced [OF f1] prepareBlocks_balanced by blast
    have "paintedBlock ext integ b (mesh_layer st3)"
      by (rule exterior_pass_paints [OF f2 bal l2]) (use assms(2) in simp)
    then show ?thesis
      using block unfolding paintedBlock_def ml by auto
  qed
qed

text \<open>
  Claim C7. With \<open>only_updated\<close> the candidates are exactly the allocated blocks whose mesh
  bit is set, otherwise exactly the allocated blocks, each once. When \<^verbatim>\<open>generateMesh\<close>
  finishes with \<open>clear_flag\<close>, every candidate block of the distance field is the block it
  was with \<open>kMesh\<close> removed from its \<^verbatim>\<open>updated()\<close> bitset, so the mesh bit is not set in it,
  and every other block is as before; without \<open>clear_flag\<close> every block is as before, so a
  mesh bit that was set stays set.
\<close>

theorem generateMesh_selects_and_clears:
  assumes "distinct (map fst (block_map (sdf_layer integ)))"
  shows "set (candidateBlocks True (sdf_layer integ)) =
           {b. \<exists>blk. getBlockPtrByIndex (sdf_layer integ) b = Some blk \<and> kMesh \<in> updated blk} \<and>
         set (candidateBlocks False (sdf_layer integ)) = {b. hasBlock (sdf_layer integ) b} \<and>
         distinct (candidateBlocks only_updated (sdf_layer integ)) \<and>
         (generateMesh ext cfg only_updated clear_flag integ = Inr integ' \<longrightarrow>
            (\<forall>b. clear_flag \<and> b \<in> set (candidateBlocks only_updated (sdf_layer integ)) \<longrightarrow>
               (\<exists>blk blk'. getBlockPtrByIndex (sdf_layer integ) b = Some blk \<and>
                  getBlockPtrByIndex (sdf_layer integ') b = Some blk' \<and>
                  blk' = blk\<lparr>updated := updated blk - {kMesh}\<rparr> \<and>
                  kMesh \<notin> updated blk')) \<and>
            (\<forall>b. \<not> (clear_flag \<and> b \<in> set (candidateBlocks only_updated (sdf_layer integ))) \<longrightarrow>
               getBlockPtrByIndex (sdf_layer integ') b = getBlockPtrByIndex (sdf_layer integ) b) \<and>
            (\<forall>b blk. \<not> clear_flag \<and> getBlockPtrByIndex (sdf_layer integ) b = Some blk \<and>
               kMesh \<in> updated blk \<longrightarrow>
               (\<exists>blk'. getBlockPtrByIndex (sdf_layer integ') b = Some blk' \<and> kMesh \<in> updated blk')) \<and>
            map fst (block_map (sdf_layer integ')) = map fst (block_map (sdf_layer integ)) \<and>
            voxels_per_side (sdf_layer integ') = voxels_per_side (sdf_layer integ))"
proof (intro conjI impI)
  show "set (candidateBlocks True (sdf_layer integ)) =
           {b. \<exists>blk. getBlockPtrByIndex (sdf_layer integ) b = Some blk \<and> kMesh \<in> updated blk}"
    using candidate_sets(1) [OF assms] by (simp add: candidateBlocks_def)
  show "set (candidateBlocks False (sdf_layer integ)) = {b. hasBlock (sdf_layer integ) b}"
    using candidate_sets(2) [OF assms] by (simp add: candidateBlocks_def)
  show "distinct (candidateBlocks only_updated (sdf_layer integ))"
    using assms
    by (simp add: candidateBlocks_def getAllUpdatedBlocks_def getAllAllocatedBlocks_def
        distinct_map_filter)
next
  assume g: "generateMesh ext cfg only_updated clear_flag integ = Inr integ'"
  let ?bs = "candidateBlocks only_updated (sdf_layer integ)"
  from generateMesh_stages [OF g] obtain st2 st3 where
    p1: "launchThreads ext cfg ?bs True (prepareBlocks ?bs integ) = Inr st2"
    and p2: "launchThreads ext cfg ?bs False st2 = Inr st3"
    and fin: "if clear_flag then foldE clearUpdatedFlag ?bs st3 = Inr integ' else integ' = st3"
    by blast
  have l3: "sdf_layer st3 = sdf_layer integ"
    using launchThreads_layers [OF p1] launchThreads_layers [OF p2] by simp
  have r: "(\<forall>b. getBlockPtrByIndex (sdf_layer integ') b =
               (if clear_flag \<and> b \<in> set ?bs
                then map_option resetMeshBit (getBlockPtrByIndex (sdf_layer integ) b)
                else getBlockPtrByIndex (sdf_layer integ) b)) \<and>
            map fst (block_map (sdf_layer integ')) = map fst (block_map (sdf_layer integ)) \<and>
            voxels_per_side (sdf_layer integ') = voxels_per_side (sdf_layer integ)"
  proof (cases clear_flag)
    case True
    with fin have "foldE clearUpdatedFlag ?bs st3 = Inr integ'" by simp
    from clearUpdatedFlags_effect [OF this] show ?thesis
      using True l3 by simp
  next
    case False
    with fin l3 show ?thesis by simp
  qed
  show "\<forall>b. clear_flag \<and> b \<in> set ?bs \<longrightarrow>
          (\<exists>blk blk'. getBlockPtrByIndex (sdf_layer integ) b = Some blk \<and>
             getBlockPtrByIndex (sdf_layer integ') b = Some blk' \<and>
             blk' = blk\<lparr>updated := updated blk - {kMesh}\<rparr> \<and>
             kMesh \<notin> updated blk')"
  proof (intro allI impI)
    fix b
    assume c: "clear_flag \<and> b \<in> set ?bs"
    then obtain blk where blk: "getBlockPtrByIndex (sdf_layer integ) b = Some blk"
      using candidate_allocated by blast
    from r have "getBlockPtrByIndex (sdf_layer integ') b =
        (if clear_flag \<and> b \<in> set ?bs
         then map_option resetMeshBit (getBlockPtrByIndex (sdf_layer integ) b)
         else getBlockPtrByIndex (sdf_layer integ) b)"
      by blast
    with c blk have "getBlockPtrByIndex (sdf_layer integ') b = Some (resetMeshBit blk)"
      by simp
    then have "getBlockPtrByIndex (sdf_layer integ') b = Some (blk\<lparr>updated := updated blk - {kMesh}\<rparr>)"
      by (simp add: resetMeshBit_def)
    with blk show "\<exists>blk blk'. getBlockPtrByIndex (sdf_layer integ) b = Some blk \<and>
             getBlockPtrByIndex (sdf_layer integ') b = Some blk' \<and>
             blk' = blk\<lparr>updated := updated blk - {kMesh}\<rparr> \<and>
             kMesh \<notin> updated blk'"
      by simp
  qed
  show u: "\<forall>b. \<not> (clear_flag \<and> b \<in> set ?bs) \<longrightarrow>
          getBlockPtrByIndex (sdf_layer integ') b = getBlockPtrByIndex (sdf_layer integ) b"
  proof (intro allI impI)
    fix b
    assume n: "\<not> (clear_flag \<and> b \<in> set ?bs)"
    from r have "getBlockPtrByIndex (sdf_layer integ') b =
        (if clear_flag \<and> b \<in> set ?bs
         then map_option resetMeshBit (getBlockPtrByIndex (sdf_layer integ) b)
         else getBlockPtrByIndex (sdf_layer integ) b)"
      by blast
    with n show "getBlockPtrByIndex (sdf_layer integ') b = getBlockPtrByIndex (sdf_layer integ) b"
      by auto
  qed
  show "\<forall>b blk. \<not> clear_flag \<and> getBlockPtrByIndex (sdf_layer integ) b = Some blk \<and>
          kMesh \<in> updated blk \<longrightarrow>
          (\<exists>blk'. getBlockPtrByIndex (sdf_layer integ') b = Some blk' \<and> kMesh \<in> updated blk')"
  proof (intro allI impI)
    fix b blk
    assume a: "\<not> clear_flag \<and> getBlockPtrByIndex (sdf_layer integ) b = Some blk \<and>
          kMesh \<in> updated blk"
    then have "\<not> (clear_flag \<and> b \<in> set ?bs)" by simp
    with u have "getBlockPtrByIndex (sdf_layer integ') b = getBlockPtrByIndex (sdf_layer integ) b"
      by blast
    with a show "\<exists>blk'. getBlockPtrByIndex (sdf_layer integ') b = Some blk' \<and> kMesh \<in> updated blk'"
      by simp
  qed
  show "map fst (block_map (sdf_layer integ')) = map fst (block_map (sdf_layer integ))"
    using r by blast
  show "voxels_per_side (sdf_layer integ') = voxels_per_side (sdf_layer integ)"
    using r by blast
qed


lemmas pass_defs = updateBlockInterior_def updateBlockExterior_def interiorCells_2 exteriorCells_2
  prepareBlocks_def prepareBlock_def allocateBlock_def allocateBlockPtrByIndex_def clearMesh_def
  emptyMesh_def resetBlock_def clearUpdatedFlag_def resetMeshBit_def candidateBlocks_def
  getAllAllocatedBlocks_def getAllUpdatedBlocks_def

lemma demo_threads: "integrator_threads demoCfg \<noteq> 0"
  by (simp add: demoCfg_def)

lemma demo_run_all:
  "\<exists>i. generateMesh demoExt demoCfg False True demoIntegrator = Inr i"
  by (simp add: generateMesh_def launchThreads_sequential demo_threads pass_defs demo_defs eval_defs
      Let_def upt_rec)

lemma demo_run_updated:
  "\<exists>i. generateMesh demoExt demoCfg True True demoIntegrator = Inr i"
  by (simp add: generateMesh_def launchThreads_sequential demo_threads pass_defs demo_defs eval_defs
      Let_def upt_rec)

lemma demo_exterior:
  "\<exists>i. updateBlockExterior demoExt demoCfg (0, 0, 0) demoIntegrator = Inr i"
  by (simp add: pass_defs demo_defs eval_defs Let_def upt_rec)


lemma demo_run_all_vertices:
  "case generateMesh demoExt demoCfg False True demoIntegrator of
     Inl e \<Rightarrow> False
   | Inr i \<Rightarrow> map_option vertices (meshes (mesh_layer i) (0, 0, 0)) = Some [0, 1, 3, 0, 1, 3]"
  by (simp add: generateMesh_def launchThreads_sequential demo_threads pass_defs demo_defs eval_defs
      Let_def upt_rec)

lemma demo_border_corners:
  "\<exists>d. borderCorners demoExt 1 pairLayer (0, 0, 0) demoBlock (1, 0, 0) 0 cornerNumbers
          ([], [], replicate 8 None) = Inr (Some d)"
  by (simp add: demo_defs eval_defs Let_def)

theorem exterior_markers_stay_in_block_witness:
  "(\<exists>sdf coords vox.
      borderCorners demoExt 1 pairLayer (0, 0, 0) demoBlock (1, 0, 0) 0 cornerNumbers
        ([], [], replicate 8 None) = Inr (Some (sdf, coords, vox)) \<and>
      vox ! 0 = Some ((0, 0, 0), 1) \<and> vox ! 1 = None) \<and>
   (\<exists>i. updateBlockExterior demoExt demoCfg (0, 0, 0) demoIntegrator = Inr i \<and>
      getBlockPtrByIndex (vertex_layer i) (1, 0, 0) = Some staleMarkers)"
proof
  from demo_border_corners obtain sdf coords vox where
    d: "borderCorners demoExt 1 pairLayer (0, 0, 0) demoBlock (1, 0, 0) 0 cornerNumbers
          ([], [], replicate 8 None) = Inr (Some (sdf, coords, vox))"
    by (metis prod_cases3)
  have v0: "isValidVoxelIndex (voxels_per_side pairLayer) (add3 (1, 0, 0) (cube_index_offsets 0))"
    and v1: "\<not> isValidVoxelIndex (voxels_per_side pairLayer) (add3 (1, 0, 0) (cube_index_offsets 1))"
    and l0: "computeLinearIndexFromVoxelIndex (voxels_per_side pairLayer)
               (add3 (1, 0, 0) (cube_index_offsets 0)) = 1"
    by (simp_all add: pairLayer_def eval_defs)
  have "vox ! 0 = Some ((0, 0, 0), 1)"
    using exterior_markers_stay_in_block [where ext = demoExt and mw = 1 and layer = pairLayer
        and b = "(0, 0, 0)" and block = demoBlock and index = "(1, 0, 0)" and point = 0
        and sdf = sdf and coords = coords and vox = vox and i = 0] d v0 l0
    by simp
  moreover have "vox ! 1 = None"
    using exterior_markers_stay_in_block [where ext = demoExt and mw = 1 and layer = pairLayer
        and b = "(0, 0, 0)" and block = demoBlock and index = "(1, 0, 0)" and point = 0
        and sdf = sdf and coords = coords and vox = vox and i = 1] d v1
    by simp
  ultimately show "\<exists>sdf coords vox.
      borderCorners demoExt 1 pairLayer (0, 0, 0) demoBlock (1, 0, 0) 0 cornerNumbers
        ([], [], replicate 8 None) = Inr (Some (sdf, coords, vox)) \<and>
      vox ! 0 = Some ((0, 0, 0), 1) \<and> vox ! 1 = None"
    using d by blast
next
  from demo_exterior obtain i where
    i: "updateBlockExterior demoExt demoCfg (0, 0, 0) demoIntegrator = Inr i" by blast
  have "getBlockPtrByIndex (vertex_layer i) (1, 0, 0) =
        getBlockPtrByIndex (vertex_layer demoIntegrator) (1, 0, 0)"
    using exterior_markers_stay_in_block [where ext = demoExt and cfg = demoCfg
        and b = "(0, 0, 0)" and integ = demoIntegrator and integ' = i and b' = "(1, 0, 0)"] i
    by simp
  also have "\<dots> = Some staleMarkers"
    by (simp add: demoIntegrator_def pairVertexLayer_def getBlockPtrByIndex_def)
  finally show "\<exists>i. updateBlockExterior demoExt demoCfg (0, 0, 0) demoIntegrator = Inr i \<and>
      getBlockPtrByIndex (vertex_layer i) (1, 0, 0) = Some staleMarkers"
    using i by blast
qed

lemma demo_candidates:
  "candidateBlocks False (sdf_layer demoIntegrator) = [(0, 0, 0), (1, 0, 0)]"
  "candidateBlocks True (sdf_layer demoIntegrator) = [(0, 0, 0)]"
  by (simp_all add: pass_defs demo_defs)

theorem generateMesh_colors_match_vertices_witness:
  "\<exists>i m ls. generateMesh demoExt demoCfg False True demoIntegrator = Inr i \<and>
      meshes (mesh_layer i) (0, 0, 0) = Some m \<and> vertices m = [0, 1, 3, 0, 1, 3] \<and>
      length (colors m) = length (vertices m) \<and>
      semantics (mesh_layer i) (0, 0, 0) = Some ls \<and> 5 < length ls"
proof -
  from demo_run_all obtain i where
    i: "generateMesh demoExt demoCfg False True demoIntegrator = Inr i" by blast
  have c: "(0, 0, 0) \<in> set (candidateBlocks False (sdf_layer demoIntegrator))"
    by (simp add: demo_candidates)
  have s: "semantic_layer demoIntegrator \<noteq> None" by (simp add: demoIntegrator_def)
  from generateMesh_colors_match_vertices [OF i c] s obtain m ls where
    m: "meshes (mesh_layer i) (0, 0, 0) = Some m" "length (colors m) = length (vertices m)"
    and ls: "semantics (mesh_layer i) (0, 0, 0) = Some ls"
      "\<forall>k. k < length (vertices m) \<longrightarrow> k < length ls"
    by blast
  have v: "vertices m = [0, 1, 3, 0, 1, 3]"
    using demo_run_all_vertices i m by simp
  with ls have "5 < length ls" by simp
  with i m ls v show ?thesis by blast
qed

lemma demo_run_keep:
  "\<exists>i. generateMesh demoExt demoCfg True False demoIntegrator = Inr i"
  by (simp add: generateMesh_def launchThreads_sequential demo_threads pass_defs demo_defs eval_defs
      Let_def upt_rec)

theorem generateMesh_selects_and_clears_witness:
  "distinct (map fst (block_map (sdf_layer demoIntegrator))) \<and>
   set (candidateBlocks True (sdf_layer demoIntegrator)) = {(0, 0, 0)} \<and>
   getBlockPtrByIndex (sdf_layer demoIntegrator) (0, 0, 0) = Some demoBlock \<and>
   kMesh \<in> updated demoBlock \<and>
   (\<exists>i blk'. generateMesh demoExt demoCfg True True demoIntegrator = Inr i \<and>
      getBlockPtrByIndex (sdf_layer i) (0, 0, 0) = Some blk' \<and>
      voxels blk' = voxels demoBlock \<and> updated blk' = {} \<and> kMesh \<notin> updated blk' \<and>
      getBlockPtrByIndex (sdf_layer i) (1, 0, 0) = Some quietBlock) \<and>
   (\<exists>i blk'. generateMesh demoExt demoCfg True False demoIntegrator = Inr i \<and>
      getBlockPtrByIndex (sdf_layer i) (0, 0, 0) = Some blk' \<and> kMesh \<in> updated blk')"
proof -
  have d: "distinct (map fst (block_map (sdf_layer demoIntegrator)))"
    by (simp add: demoIntegrator_def pairLayer_def)
  have g: "getBlockPtrByIndex (sdf_layer demoIntegrator) (0, 0, 0) = Some demoBlock"
    "getBlockPtrByIndex (sdf_layer demoIntegrator) (1, 0, 0) = Some quietBlock"
    by (simp_all add: demoIntegrator_def pairLayer_def getBlockPtrByIndex_def)
  have k: "kMesh \<in> updated demoBlock" "updated demoBlock - {kMesh} = {}"
    by (simp_all add: demoBlock_def)
  from demo_run_updated obtain i where
    i: "generateMesh demoExt demoCfg True True demoIntegrator = Inr i" by blast
  note t = generateMesh_selects_and_clears [OF d, where ext = demoExt and cfg = demoCfg
      and only_updated = True and clear_flag = True and integ' = i]
  from t i g(1) obtain blk' where
    b: "getBlockPtrByIndex (sdf_layer i) (0, 0, 0) = Some blk'"
      "blk' = demoBlock\<lparr>updated := updated demoBlock - {kMesh}\<rparr>" "kMesh \<notin> updated blk'"
    by (auto simp: demo_candidates)
  have q: "getBlockPtrByIndex (sdf_layer i) (1, 0, 0) = Some quietBlock"
    using t i g(2) by (simp add: demo_candidates)
  have first: "\<exists>i blk'. generateMesh demoExt demoCfg True True demoIntegrator = Inr i \<and>
      getBlockPtrByIndex (sdf_layer i) (0, 0, 0) = Some blk' \<and>
      voxels blk' = voxels demoBlock \<and> updated blk' = {} \<and> kMesh \<notin> updated blk' \<and>
      getBlockPtrByIndex (sdf_layer i) (1, 0, 0) = Some quietBlock"
    using i b q k(2) by auto
  from demo_run_keep obtain j where
    j: "generateMesh demoExt demoCfg True False demoIntegrator = Inr j" by blast
  note t' = generateMesh_selects_and_clears [OF d, where ext = demoExt and cfg = demoCfg
      and only_updated = True and clear_flag = False and integ' = j]
  from t' j g(1) k(1) have
    "\<exists>blk'. getBlockPtrByIndex (sdf_layer j) (0, 0, 0) = Some blk' \<and> kMesh \<in> updated blk'"
    by simp
  with j have second: "\<exists>i blk'. generateMesh demoExt demoCfg True False demoIntegrator = Inr i \<and>
      getBlockPtrByIndex (sdf_layer i) (0, 0, 0) = Some blk' \<and> kMesh \<in> updated blk'"
    by blast
  show ?thesis
    using d g(1) k(1) first second by (simp add: demo_candidates)
qed

theorem prepareBlocks_clears_candidates_witness:
  "(0, 0, 0) \<in> set (candidateBlocks False (sdf_layer demoIntegrator)) \<and>
   meshes (mesh_layer demoIntegrator) (0, 0, 0) = Some staleMesh \<and>
   getBlockPtrByIndex (vertex_layer demoIntegrator) (0, 0, 0) = Some staleMarkers \<and>
   (\<exists>m. meshes (mesh_layer (prepareBlocks (candidateBlocks False (sdf_layer demoIntegrator))
                               demoIntegrator)) (0, 0, 0) = Some m \<and>
        vertices m = [] \<and> indices m = [] \<and> colors m = []) \<and>
   (\<exists>vb. getBlockPtrByIndex
            (vertex_layer (prepareBlocks (candidateBlocks False (sdf_layer demoIntegrator))
                            demoIntegrator)) (0, 0, 0) = Some vb \<and>
         list_all (\<lambda>v. \<not> on_surface v) (voxels vb) \<and> length (voxels vb) = 8)"
proof -
  have c: "(0, 0, 0) \<in> set (candidateBlocks False (sdf_layer demoIntegrator))"
    by (simp add: demo_candidates)
  have g: "meshes (mesh_layer demoIntegrator) (0, 0, 0) = Some staleMesh"
    "getBlockPtrByIndex (vertex_layer demoIntegrator) (0, 0, 0) = Some staleMarkers"
    by (simp_all add: demoIntegrator_def pairVertexLayer_def getBlockPtrByIndex_def)
  have l: "length (voxels staleMarkers) = 8" by (simp add: staleMarkers_def)
  from prepareBlocks_clears_candidates [OF c, where ext = demoExt and cfg = demoCfg
      and clear_flag = True] g l c
  show ?thesis by simp
qed


declare split_paired_All [simp del]

lemma getVoxelByVoxelIndex_cong:
  assumes "voxels blk1 = voxels blk2"
  shows "getVoxelByVoxelIndex vps blk1 idx = getVoxelByVoxelIndex vps blk2 idx"
  unfolding getVoxelByVoxelIndex_def assms by (rule refl)

lemma sameVoxels_block:
  assumes "sameVoxels l1 l2"
  shows "(getBlockPtrByIndex l1 b = None \<and> getBlockPtrByIndex l2 b = None) \<or>
         (\<exists>blk1 blk2. getBlockPtrByIndex l1 b = Some blk1 \<and> getBlockPtrByIndex l2 b = Some blk2 \<and>
            voxels blk1 = voxels blk2)"
proof -
  from assms have "map_option voxels (getBlockPtrByIndex l1 b) = map_option voxels (getBlockPtrByIndex l2 b)"
    unfolding sameVoxels_def by blast
  then show ?thesis
    by (cases "getBlockPtrByIndex l1 b"; cases "getBlockPtrByIndex l2 b") auto
qed

lemma sameVoxels_vps: "sameVoxels l1 l2 \<Longrightarrow> voxels_per_side l1 = voxels_per_side l2"
  by (simp add: sameVoxels_def)

lemma borderCornerVoxel_cong:
  assumes "sameVoxels l1 l2" and "voxels block1 = voxels block2"
  shows "borderCornerVoxel l1 b block1 idx i = borderCornerVoxel l2 b block2 idx i"
proof -
  let ?vps = "voxels_per_side l2"
  let ?c = "add3 idx (cube_index_offsets i)"
  have v: "voxels_per_side l1 = ?vps" using assms(1) by (rule sameVoxels_vps)
  show ?thesis
  proof (cases "isValidVoxelIndex ?vps ?c")
    case True
    then show ?thesis
      using getVoxelByVoxelIndex_cong [OF assms(2), of ?vps ?c]
      by (simp add: borderCornerVoxel_def Let_def v)
  next
    case False
    obtain nidx widx where n: "getNeighborBlockIndex ?vps b ?c = (nidx, widx)"
      by (cases "getNeighborBlockIndex ?vps b ?c") auto
    from sameVoxels_block [OF assms(1), of nidx] show ?thesis
    proof
      assume "getBlockPtrByIndex l1 nidx = None \<and> getBlockPtrByIndex l2 nidx = None"
      then show ?thesis using False n by (simp add: borderCornerVoxel_def Let_def v)
    next
      assume "\<exists>blk1 blk2. getBlockPtrByIndex l1 nidx = Some blk1 \<and>
                getBlockPtrByIndex l2 nidx = Some blk2 \<and> voxels blk1 = voxels blk2"
      then obtain blk1 blk2 where
        b: "getBlockPtrByIndex l1 nidx = Some blk1" "getBlockPtrByIndex l2 nidx = Some blk2"
        and e: "voxels blk1 = voxels blk2" by blast
      show ?thesis
        using False n b getVoxelByVoxelIndex_cong [OF e, of ?vps widx]
        by (simp add: borderCornerVoxel_def Let_def v)
    qed
  qed
qed

lemma borderCorners_cong:
  assumes "sameVoxels l1 l2" and "voxels block1 = voxels block2"
  shows "borderCorners ext mw l1 b block1 idx pt js acc = borderCorners ext mw l2 b block2 idx pt js acc"
proof (induction js arbitrary: acc)
  case Nil
  then show ?case by simp
next
  case (Cons j js)
  obtain sdf coords vox where acc: "acc = (sdf, coords, vox)" by (cases acc) auto
  show ?case
    unfolding acc borderCorners.simps borderCornerVoxel_cong [OF assms, of b idx j]
    by (simp only: Cons.IH)
qed

lemma insideCorners_cong:
  assumes "voxels block1 = voxels block2"
  shows "insideCorners ext mw vps b block1 idx pt js acc = insideCorners ext mw vps b block2 idx pt js acc"
proof (induction js arbitrary: acc)
  case Nil
  then show ?case by simp
next
  case (Cons j js)
  obtain sdf coords vox where acc: "acc = (sdf, coords, vox)" by (cases acc) auto
  show ?case
    unfolding acc insideCorners.simps Let_def
      getVoxelByVoxelIndex_cong [OF assms, of vps "add3 idx (cube_index_offsets j)"]
    by (simp only: Cons.IH)
qed

lemma markOnSurface_hasBlock: "hasBlock (markOnSurface r vl) c = hasBlock vl c"
  by (cases r) (simp add: markOnSurface_def hasBlock_def getBlockPtrByIndex_def map_of_map_entry
      split: option.splits)

lemma emitVertices_hasBlock:
  "hasBlock (snd (snd (emitVertices vox es (n, m, vl)))) c = hasBlock vl c"
proof (induction es arbitrary: n m vl)
  case Nil
  then show ?case by simp
next
  case (Cons e es)
  obtain p k where e: "e = (p, k)" by (cases e) auto
  show ?case
    by (simp add: e Cons.IH markOnSurface_hasBlock split: option.splits)
qed

lemma meshCube_rel:
  assumes "meshStateRel s1 s2"
  shows "meshStateRel (meshCube ext b coords sdf vox s1) (meshCube ext b coords sdf vox s2)"
proof -
  obtain n1 m1 vl1 where s1: "s1 = (n1, m1, vl1)" by (cases s1) auto
  obtain n2 m2 vl2 where s2: "s2 = (n2, m2, vl2)" by (cases s2) auto
  let ?es = "cubeVertices ext sdf coords"
  obtain a1 b1 c1 where r1: "emitVertices vox ?es (n1, m1, vl1) = (a1, b1, c1)"
    by (cases "emitVertices vox ?es (n1, m1, vl1)") auto
  obtain a2 b2 c2 where r2: "emitVertices vox ?es (n2, m2, vl2) = (a2, b2, c2)"
    by (cases "emitVertices vox ?es (n2, m2, vl2)") auto
  have h1: "hasBlock c1 c = hasBlock vl1 c" for c
    using emitVertices_hasBlock [of vox ?es n1 m1 vl1 c] r1 by simp
  have h2: "hasBlock c2 c = hasBlock vl2 c" for c
    using emitVertices_hasBlock [of vox ?es n2 m2 vl2 c] r2 by simp
  from assms have n: "n1 = n2" and me: "meshEq m1 m2"
    and hb: "\<And>c. hasBlock vl1 c = hasBlock vl2 c"
    by (simp_all add: meshStateRel_def s1 s2)
  have e1: "meshCube ext b coords sdf vox s1 = (a1, b1, c1)" by (simp add: meshCube_def s1 r1)
  have e2: "meshCube ext b coords sdf vox s2 = (a2, b2, c2)" by (simp add: meshCube_def s2 r2)
  have "a1 = a2" using emitVertices_parts(1) [OF r1] emitVertices_parts(1) [OF r2] n by simp
  moreover have "meshEq b1 b2"
    using emitVertices_parts(2) [OF r1] emitVertices_parts(2) [OF r2] n me
    by (simp add: meshEq_def)
  moreover have "hasBlock c1 c = hasBlock c2 c" for c
    using h1 h2 hb by simp
  ultimately show ?thesis
    unfolding e1 e2 meshStateRel_def by (simp del: split_paired_All)
qed

lemma meshStateRel_hasBlock:
  assumes "meshStateRel (n1, m1, vl1) (n2, m2, vl2)"
  shows "hasBlock vl1 c = hasBlock vl2 c"
  using assms by (simp add: meshStateRel_def)

lemma extractMeshInsideBlock_rel:
  assumes "meshStateRel s1 s2" and "voxels block1 = voxels block2"
    and "extractMeshInsideBlock ext cfg vps b block1 idx pt s1 = Inr t1"
  shows "\<exists>t2. extractMeshInsideBlock ext cfg vps b block2 idx pt s2 = Inr t2 \<and> meshStateRel t1 t2"
proof -
  obtain n1 m1 vl1 where s1: "s1 = (n1, m1, vl1)" by (cases s1) auto
  obtain n2 m2 vl2 where s2: "s2 = (n2, m2, vl2)" by (cases s2) auto
  have hb: "hasBlock vl1 b = hasBlock vl2 b"
    using assms(1) unfolding s1 s2 by (rule meshStateRel_hasBlock)
  have c: "insideCorners ext (min_weight cfg) vps b block1 idx pt cornerNumbers ([], [], replicate 8 None) =
           insideCorners ext (min_weight cfg) vps b block2 idx pt cornerNumbers ([], [], replicate 8 None)"
    by (rule insideCorners_cong [OF assms(2)])
  show ?thesis
  proof (cases "insideCorners ext (min_weight cfg) vps b block2 idx pt cornerNumbers ([], [], replicate 8 None)")
    case (Inl e)
    then show ?thesis using assms(3) c by (simp add: extractMeshInsideBlock_def s1 split: if_splits)
  next
    case (Inr r)
    show ?thesis
    proof (cases r)
      case None
      then show ?thesis
        using assms(1,3) c Inr hb by (simp add: extractMeshInsideBlock_def s1 s2 split: if_splits)
    next
      case (Some data)
      obtain sdf coords vox where data: "data = (sdf, coords, vox)" by (cases data) auto
      have "t1 = meshCube ext b coords sdf vox s1"
        using assms(3) c Inr Some data by (simp add: extractMeshInsideBlock_def s1 split: if_splits)
      moreover have "hasBlock vl1 b"
        using assms(3) by (simp add: extractMeshInsideBlock_def s1 split: if_splits)
      ultimately show ?thesis
        using meshCube_rel [OF assms(1), of ext b coords sdf vox] Inr Some data hb
        by (simp add: extractMeshInsideBlock_def s2)
    qed
  qed
qed

lemma extractMeshOnBorder_rel:
  assumes "meshStateRel s1 s2" and "voxels block1 = voxels block2" and "sameVoxels l1 l2"
    and "extractMeshOnBorder ext cfg l1 b block1 idx pt s1 = Inr t1"
  shows "\<exists>t2. extractMeshOnBorder ext cfg l2 b block2 idx pt s2 = Inr t2 \<and> meshStateRel t1 t2"
proof -
  obtain n1 m1 vl1 where s1: "s1 = (n1, m1, vl1)" by (cases s1) auto
  obtain n2 m2 vl2 where s2: "s2 = (n2, m2, vl2)" by (cases s2) auto
  have hb: "hasBlock vl1 b = hasBlock vl2 b"
    using assms(1) unfolding s1 s2 by (rule meshStateRel_hasBlock)
  have c: "borderCorners ext (min_weight cfg) l1 b block1 idx pt cornerNumbers ([], [], replicate 8 None) =
           borderCorners ext (min_weight cfg) l2 b block2 idx pt cornerNumbers ([], [], replicate 8 None)"
    by (rule borderCorners_cong [OF assms(3,2)])
  show ?thesis
  proof (cases "borderCorners ext (min_weight cfg) l2 b block2 idx pt cornerNumbers ([], [], replicate 8 None)")
    case (Inl e)
    then show ?thesis using assms(4) c by (simp add: extractMeshOnBorder_def s1 split: if_splits)
  next
    case (Inr r)
    show ?thesis
    proof (cases r)
      case None
      then show ?thesis
        using assms(1,4) c Inr hb by (simp add: extractMeshOnBorder_def s1 s2 split: if_splits)
    next
      case (Some data)
      obtain sdf coords vox where data: "data = (sdf, coords, vox)" by (cases data) auto
      have "t1 = meshCube ext b coords sdf vox s1"
        using assms(4) c Inr Some data by (simp add: extractMeshOnBorder_def s1 split: if_splits)
      moreover have "hasBlock vl1 b"
        using assms(4) by (simp add: extractMeshOnBorder_def s1 split: if_splits)
      ultimately show ?thesis
        using meshCube_rel [OF assms(1), of ext b coords sdf vox] Inr Some data hb
        by (simp add: extractMeshOnBorder_def s2)
    qed
  qed
qed

lemma foldE_rel:
  assumes "foldE f xs s = Inr s'" and "R s t"
    and "\<And>x u u' v. x \<in> set xs \<Longrightarrow> R u v \<Longrightarrow> f x u = Inr u' \<Longrightarrow> \<exists>v'. g x v = Inr v' \<and> R u' v'"
  shows "\<exists>t'. foldE g xs t = Inr t' \<and> R s' t'"
  using assms
proof (induction xs arbitrary: s t)
  case Nil
  then show ?case by simp
next
  case (Cons x xs)
  from Cons.prems(1) obtain u where u: "f x s = Inr u" and r: "foldE f xs u = Inr s'"
    by (auto split: sum.splits)
  from Cons.prems(3) [of x s t u] Cons.prems(2) u obtain v where
    v: "g x t = Inr v" and ruv: "R u v" by auto
  have "\<exists>t'. foldE g xs v = Inr t' \<and> R s' t'"
    by (rule Cons.IH [OF r ruv]) (use Cons.prems(3) in auto)
  then show ?case using v by simp
qed

lemma lookupVertexVoxels_rel:
  assumes "sameVoxels (sdf_layer st1) (sdf_layer st2)" and "semantic_layer st1 = semantic_layer st2"
    and "voxels block1 = voxels block2"
  shows "lookupVertexVoxels ext st1 block1 b v = lookupVertexVoxels ext st2 block2 b v"
proof -
  let ?vps = "voxels_per_side (sdf_layer st2)"
  let ?n = "computeBlockIndexFromCoordinates ext v"
  have vps: "voxels_per_side (sdf_layer st1) = ?vps" using assms(1) by (rule sameVoxels_vps)
  have g: "getVoxelByVoxelIndex ?vps block1 = getVoxelByVoxelIndex ?vps block2"
    using getVoxelByVoxelIndex_cong [OF assms(3)] by (simp add: fun_eq_iff)
  from sameVoxels_block [OF assms(1), of ?n] show ?thesis
  proof
    assume "getBlockPtrByIndex (sdf_layer st1) ?n = None \<and> getBlockPtrByIndex (sdf_layer st2) ?n = None"
    then show ?thesis
      unfolding lookupVertexVoxels_def Let_def vps g assms(2) by simp
  next
    assume "\<exists>blk1 blk2. getBlockPtrByIndex (sdf_layer st1) ?n = Some blk1 \<and>
              getBlockPtrByIndex (sdf_layer st2) ?n = Some blk2 \<and> voxels blk1 = voxels blk2"
    then obtain blk1 blk2 where
      b: "getBlockPtrByIndex (sdf_layer st1) ?n = Some blk1"
         "getBlockPtrByIndex (sdf_layer st2) ?n = Some blk2"
      and e: "voxels blk1 = voxels blk2" by blast
    have c: "getVoxelByCoordinates ext ?vps ?n blk1 v = getVoxelByCoordinates ext ?vps ?n blk2 v"
      unfolding getVoxelByCoordinates_def by (rule getVoxelByVoxelIndex_cong [OF e])
    show ?thesis
      unfolding lookupVertexVoxels_def Let_def vps g assms(2) b by (simp add: c)
  qed
qed

lemma paintVertex_cong:
  assumes "sameVoxels (sdf_layer st1) (sdf_layer st2)" and "semantic_layer st1 = semantic_layer st2"
    and "voxels block1 = voxels block2"
  shows "paintVertex ext cfg st1 block1 b verts = paintVertex ext cfg st2 block2 b verts"
  unfolding paintVertex_def lookupVertexVoxels_rel [OF assms] by (rule refl)

lemma paintVertex_labels_rel:
  assumes "paintVertex ext cfg st block b verts i (cols, l1) = Inr (cols', l1')"
    and "rel_option (\<lambda>x y. length x = length y) l1 l2"
  shows "\<exists>l2'. paintVertex ext cfg st block b verts i (cols, l2) = Inr (cols', l2') \<and>
               rel_option (\<lambda>x y. length x = length y) l1' l2'"
proof -
  from paintVertex_step [OF assms(1)] obtain voxel sem where
    k: "i < length cols"
    and lk: "lookupVertexVoxels ext st block b (verts ! i) = Inr (voxel, sem)"
    and lab: "case sem of
               None \<Rightarrow> l1' = l1
             | Some sv \<Rightarrow> (\<exists>ls. l1 = Some ls \<and> i < length ls \<and>
                             l1' = Some (ls[i := semantic_label sv]))"
    by blast
  have cols': "cols' = (case getColorIfValid ext voxel (min_weight cfg) of
                               None \<Rightarrow> cols
                             | Some c \<Rightarrow> cols[i := c])"
    using assms(1) lk k
    by (auto simp: paintVertex_def Let_def split: option.splits if_splits)
  show ?thesis
  proof (cases sem)
    case None
    then show ?thesis
      using lk k cols' lab assms(2) by (simp add: paintVertex_def Let_def)
  next
    case (Some sv)
    with lab obtain ls where ls: "l1 = Some ls" "i < length ls" "l1' = Some (ls[i := semantic_label sv])"
      by auto
    with assms(2) obtain ls2 where ls2: "l2 = Some ls2" "length ls = length ls2"
      by (cases l2) auto
    show ?thesis
      using lk k cols' Some ls ls2 by (simp add: paintVertex_def Let_def)
  qed
qed

lemma paint_loop_rel:
  assumes "foldE (paintVertex ext cfg st block b verts) xs (cols0, l1) = Inr (cols, l1')"
    and "rel_option (\<lambda>x y. length x = length y) l1 l2"
  shows "\<exists>l2'. foldE (paintVertex ext cfg st block b verts) xs (cols0, l2) = Inr (cols, l2') \<and>
               rel_option (\<lambda>x y. length x = length y) l1' l2'"
proof -
  let ?R = "\<lambda>(u :: Color list \<times> nat list option) (v :: Color list \<times> nat list option).
              fst u = fst v \<and> rel_option (\<lambda>x y. length x = length y) (snd u) (snd v)"
  have "\<exists>t'. foldE (paintVertex ext cfg st block b verts) xs (cols0, l2) = Inr t' \<and> ?R (cols, l1') t'"
  proof (rule foldE_rel [OF assms(1), where R = ?R])
    show "?R (cols0, l1) (cols0, l2)" using assms(2) by simp
  next
    fix x u u' v
    assume r: "?R u v" and f: "paintVertex ext cfg st block b verts x u = Inr u'"
    obtain c la where u: "u = (c, la)" by (cases u) auto
    obtain c2 lb where v: "v = (c2, lb)" by (cases v) auto
    obtain c' la' where u': "u' = (c', la')" by (cases u') auto
    from r u v have e: "c2 = c" and rl: "rel_option (\<lambda>x y. length x = length y) la lb" by simp_all
    from paintVertex_labels_rel [OF f [unfolded u u'] rl]
    show "\<exists>v'. paintVertex ext cfg st block b verts x v = Inr v' \<and> ?R u' v'"
      unfolding v e u' by auto
  qed
  then show ?thesis by auto
qed

lemma updateMeshColor_rel:
  assumes "sameVoxels (sdf_layer st1) (sdf_layer st2)" and "semantic_layer st1 = semantic_layer st2"
    and "voxels block1 = voxels block2" and "meshEq mesh1 mesh2"
    and "(semantics (mesh_layer st1) b = None) = (semantics (mesh_layer st2) b = None)"
    and "updateMeshColor ext cfg st1 block1 mesh1 b = Inr (m1, lab1)"
  shows "\<exists>m2 lab2. updateMeshColor ext cfg st2 block2 mesh2 b = Inr (m2, lab2) \<and> meshEq m1 m2 \<and>
           (lab1 = None) = (lab2 = None)"
proof -
  let ?n = "length (indices mesh1)"
  have n: "length (indices mesh2) = ?n" and vs: "vertices mesh2 = vertices mesh1"
    using assms(4) by (simp_all add: meshEq_def)
  from assms(6) obtain l1 cols where
    l1: "(case semantic_layer st1 of
                 None \<Rightarrow> Inr None
               | Some sl \<Rightarrow>
                   (case semantics (mesh_layer st1) b of
                      None \<Rightarrow> Inl NullBlock
                    | Some ls \<Rightarrow> Inr (Some (resize ?n 0 ls)))) = Inr l1"
    and f: "foldE (paintVertex ext cfg st1 block1 b (vertices mesh1)) [0..<length (vertices mesh1)]
               (replicate ?n defaultColor, l1) = Inr (cols, lab1)"
    and m1: "m1 = mesh1\<lparr>colors := cols\<rparr>"
    by (auto simp: updateMeshColor_def Let_def split: sum.splits prod.splits)
  obtain l2 where
    l2: "(case semantic_layer st2 of
                 None \<Rightarrow> Inr None
               | Some sl \<Rightarrow>
                   (case semantics (mesh_layer st2) b of
                      None \<Rightarrow> Inl NullBlock
                    | Some ls \<Rightarrow> Inr (Some (resize ?n 0 ls)))) = Inr l2"
    and rl: "rel_option (\<lambda>x y. length x = length y) l1 l2"
    using l1 assms(2,5)
    by (cases "semantic_layer st2"; cases "semantics (mesh_layer st1) b";
        cases "semantics (mesh_layer st2) b") (auto simp: resize_def)
  have pc: "paintVertex ext cfg st1 block1 b (vertices mesh1) =
            paintVertex ext cfg st2 block2 b (vertices mesh1)"
    by (rule paintVertex_cong [OF assms(1,2,3)])
  from paint_loop_rel [OF f [unfolded pc] rl] obtain lab2 where
    f2: "foldE (paintVertex ext cfg st2 block2 b (vertices mesh1)) [0..<length (vertices mesh1)]
               (replicate ?n defaultColor, l2) = Inr (cols, lab2)"
    and r2: "rel_option (\<lambda>x y. length x = length y) lab1 lab2"
    by blast
  have "updateMeshColor ext cfg st2 block2 mesh2 b = Inr (mesh2\<lparr>colors := cols\<rparr>, lab2)"
    using l2 f2 by (simp add: updateMeshColor_def Let_def n vs)
  moreover have "meshEq m1 (mesh2\<lparr>colors := cols\<rparr>)"
    using assms(4) m1 by (simp add: meshEq_def)
  moreover have "(lab1 = None) = (lab2 = None)"
    using r2 by (cases lab1; cases lab2) auto
  ultimately show ?thesis by blast
qed

lemma simRel_meshes:
  assumes "simRel s1 s2"
  shows "rel_option meshEq (meshes (mesh_layer s1) c) (meshes (mesh_layer s2) c)"
  using assms unfolding simRel_def by blast

lemma simRel_block:
  assumes "simRel s1 s2" and "getBlockPtrByIndex (sdf_layer s1) b = Some block1"
  shows "\<exists>block2. getBlockPtrByIndex (sdf_layer s2) b = Some block2 \<and> voxels block1 = voxels block2"
proof -
  from assms(1) have "sameVoxels (sdf_layer s1) (sdf_layer s2)" by (simp add: simRel_def)
  from sameVoxels_block [OF this, of b] assms(2) show ?thesis by auto
qed

lemma updateBlockInterior_rel:
  assumes "simRel s1 s2" and "updateBlockInterior ext cfg b s1 = Inr s1'"
  shows "\<exists>s2'. updateBlockInterior ext cfg b s2 = Inr s2' \<and> simRel s1' s2'"
proof -
  from assms(2) obtain block1 where b1: "getBlockPtrByIndex (sdf_layer s1) b = Some block1"
    by (auto simp: updateBlockInterior_def split: option.splits)
  from simRel_block [OF assms(1) b1] obtain block2 where
    b2: "getBlockPtrByIndex (sdf_layer s2) b = Some block2" and e: "voxels block1 = voxels block2"
    by blast
  have sv: "sameVoxels (sdf_layer s1) (sdf_layer s2)" using assms(1) by (simp add: simRel_def)
  have vps: "voxels_per_side (sdf_layer s1) = voxels_per_side (sdf_layer s2)"
    using sv by (rule sameVoxels_vps)
  let ?vps = "voxels_per_side (sdf_layer s2)"
  show ?thesis
  proof (cases "meshes (mesh_layer s1) b")
    case None
    with simRel_meshes [OF assms(1), of b] have n2: "meshes (mesh_layer s2) b = None"
      by (cases "meshes (mesh_layer s2) b") auto
    from assms(2) None b1 have c: "interiorCells (int ?vps) = []" and s: "s1' = s1"
      by (auto simp: updateBlockInterior_def Let_def vps split: if_splits)
    show ?thesis
      using n2 b2 c s assms(1) by (simp add: updateBlockInterior_def Let_def)
  next
    case (Some m1)
    with simRel_meshes [OF assms(1), of b] obtain m2 where
      m2: "meshes (mesh_layer s2) b = Some m2" and me: "meshEq m1 m2"
      by (cases "meshes (mesh_layer s2) b") auto
    from assms(2) Some b1 obtain n1' m1' vl1' where
      f1: "foldE (\<lambda>voxel_index.
                  extractMeshInsideBlock ext cfg ?vps b block1 voxel_index
                    (computeCoordinatesFromVoxelIndex ext b voxel_index))
                (interiorCells (int ?vps)) (0, m1, vertex_layer s1) = Inr (n1', m1', vl1')"
      and s1': "s1' = s1\<lparr>vertex_layer := vl1', mesh_layer := storeMesh b m1' (mesh_layer s1)\<rparr>"
      by (auto simp: updateBlockInterior_def Let_def vps split: sum.splits prod.splits)
    have r0: "meshStateRel (0, m1, vertex_layer s1) (0, m2, vertex_layer s2)"
      using me assms(1) by (simp add: meshStateRel_def simRel_def)
    have "\<exists>t2. foldE (\<lambda>voxel_index.
                  extractMeshInsideBlock ext cfg ?vps b block2 voxel_index
                    (computeCoordinatesFromVoxelIndex ext b voxel_index))
                (interiorCells (int ?vps)) (0, m2, vertex_layer s2) = Inr t2 \<and>
              meshStateRel (n1', m1', vl1') t2"
    proof (rule foldE_rel [OF f1, where R = meshStateRel])
      show "meshStateRel (0, m1, vertex_layer s1) (0, m2, vertex_layer s2)" by (rule r0)
    next
      fix x u u' v
      assume "meshStateRel u v"
        and "extractMeshInsideBlock ext cfg ?vps b block1 x
               (computeCoordinatesFromVoxelIndex ext b x) u = Inr u'"
      then show "\<exists>v'. extractMeshInsideBlock ext cfg ?vps b block2 x
               (computeCoordinatesFromVoxelIndex ext b x) v = Inr v' \<and> meshStateRel u' v'"
        by (rule extractMeshInsideBlock_rel [OF _ e])
    qed
    then obtain n2' m2' vl2' where
      f2: "foldE (\<lambda>voxel_index.
                  extractMeshInsideBlock ext cfg ?vps b block2 voxel_index
                    (computeCoordinatesFromVoxelIndex ext b voxel_index))
                (interiorCells (int ?vps)) (0, m2, vertex_layer s2) = Inr (n2', m2', vl2')"
      and r: "meshStateRel (n1', m1', vl1') (n2', m2', vl2')"
      by (metis prod_cases3)
    let ?s2' = "s2\<lparr>vertex_layer := vl2', mesh_layer := storeMesh b m2' (mesh_layer s2)\<rparr>"
    have u: "updateBlockInterior ext cfg b s2 = Inr ?s2'"
      using b2 m2 f2 by (simp add: updateBlockInterior_def Let_def)
    have "simRel s1' ?s2'"
      using assms(1) r unfolding s1' simRel_def meshStateRel_def
      by (auto simp: storeMesh_def)
    with u show ?thesis by blast
  qed
qed

lemma updateBlockExterior_rel:
  assumes "simRel s1 s2" and "updateBlockExterior ext cfg b s1 = Inr s1'"
  shows "\<exists>s2'. updateBlockExterior ext cfg b s2 = Inr s2' \<and> simRel s1' s2'"
proof -
  from assms(2) obtain m1 block1 n1' m1' vl1' m1'' lab1 where
    mesh1: "meshes (mesh_layer s1) b = Some m1"
    and b1: "getBlockPtrByIndex (sdf_layer s1) b = Some block1"
    and f1: "foldE (\<lambda>voxel_index.
                  extractMeshOnBorder ext cfg (sdf_layer s1) b block1 voxel_index
                    (computeCoordinatesFromVoxelIndex ext b voxel_index))
                (exteriorCells (int (voxels_per_side (sdf_layer s1))))
                (length (vertices m1), m1, vertex_layer s1) = Inr (n1', m1', vl1')"
    and c1: "updateMeshColor ext cfg s1 block1 m1' b = Inr (m1'', lab1)"
    and s1': "s1' = s1\<lparr>vertex_layer := vl1',
                 mesh_layer := storeMesh b (m1''\<lparr>mesh_updated := True\<rparr>)
                                 (storeLabels b lab1 (mesh_layer s1))\<rparr>"
    by (auto simp: updateBlockExterior_def Let_def split: option.splits sum.splits prod.splits)
  from simRel_block [OF assms(1) b1] obtain block2 where
    b2: "getBlockPtrByIndex (sdf_layer s2) b = Some block2" and e: "voxels block1 = voxels block2"
    by blast
  have sv: "sameVoxels (sdf_layer s1) (sdf_layer s2)" using assms(1) by (simp add: simRel_def)
  have sl: "semantic_layer s1 = semantic_layer s2" using assms(1) by (simp add: simRel_def)
  have sd: "(semantics (mesh_layer s1) b = None) = (semantics (mesh_layer s2) b = None)"
    using assms(1) by (simp add: simRel_def)
  have vps: "voxels_per_side (sdf_layer s1) = voxels_per_side (sdf_layer s2)"
    using sv by (rule sameVoxels_vps)
  from mesh1 simRel_meshes [OF assms(1), of b] obtain m2 where
    m2: "meshes (mesh_layer s2) b = Some m2" and me: "meshEq m1 m2"
    by (cases "meshes (mesh_layer s2) b") auto
  have len: "length (vertices m2) = length (vertices m1)" using me by (simp add: meshEq_def)
  have r0: "meshStateRel (length (vertices m1), m1, vertex_layer s1)
              (length (vertices m2), m2, vertex_layer s2)"
    using me len assms(1) by (simp add: meshStateRel_def simRel_def)
  have "\<exists>t2. foldE (\<lambda>voxel_index.
                  extractMeshOnBorder ext cfg (sdf_layer s2) b block2 voxel_index
                    (computeCoordinatesFromVoxelIndex ext b voxel_index))
                (exteriorCells (int (voxels_per_side (sdf_layer s1))))
                (length (vertices m2), m2, vertex_layer s2) = Inr t2 \<and>
              meshStateRel (n1', m1', vl1') t2"
  proof (rule foldE_rel [OF f1, where R = meshStateRel])
    show "meshStateRel (length (vertices m1), m1, vertex_layer s1)
              (length (vertices m2), m2, vertex_layer s2)" by (rule r0)
  next
    fix x u u' v
    assume "meshStateRel u v"
      and "extractMeshOnBorder ext cfg (sdf_layer s1) b block1 x
             (computeCoordinatesFromVoxelIndex ext b x) u = Inr u'"
    then show "\<exists>v'. extractMeshOnBorder ext cfg (sdf_layer s2) b block2 x
             (computeCoordinatesFromVoxelIndex ext b x) v = Inr v' \<and> meshStateRel u' v'"
      by (rule extractMeshOnBorder_rel [OF _ e sv])
  qed
  then obtain n2' m2' vl2' where
    f2: "foldE (\<lambda>voxel_index.
                  extractMeshOnBorder ext cfg (sdf_layer s2) b block2 voxel_index
                    (computeCoordinatesFromVoxelIndex ext b voxel_index))
                (exteriorCells (int (voxels_per_side (sdf_layer s2))))
                (length (vertices m2), m2, vertex_layer s2) = Inr (n2', m2', vl2')"
    and r: "meshStateRel (n1', m1', vl1') (n2', m2', vl2')"
    unfolding vps by (metis prod_cases3)
  have me': "meshEq m1' m2'" using r by (simp add: meshStateRel_def)
  from updateMeshColor_rel [OF sv sl e me' sd c1] obtain m2'' lab2 where
    c2: "updateMeshColor ext cfg s2 block2 m2' b = Inr (m2'', lab2)"
    and me'': "meshEq m1'' m2''" and ld: "(lab1 = None) = (lab2 = None)"
    by blast
  let ?s2' = "s2\<lparr>vertex_layer := vl2',
                 mesh_layer := storeMesh b (m2''\<lparr>mesh_updated := True\<rparr>)
                                 (storeLabels b lab2 (mesh_layer s2))\<rparr>"
  have u: "updateBlockExterior ext cfg b s2 = Inr ?s2'"
    using b2 m2 f2 c2 by (simp add: updateBlockExterior_def Let_def)
  have "simRel s1' ?s2'"
    using assms(1) r me'' ld unfolding s1' simRel_def meshStateRel_def
    by (auto simp: storeMesh_def storeLabels_def meshEq_def split: option.splits)
  with u show ?thesis by blast
qed

lemma launchThreads_rel:
  assumes "simRel s1 s2" and "launchThreads ext cfg bs ip s1 = Inr s1'"
  shows "\<exists>s2'. launchThreads ext cfg bs ip s2 = Inr s2' \<and> simRel s1' s2'"
proof (cases "integrator_threads cfg = 0")
  case True
  then show ?thesis using assms by (simp add: launchThreads_sequential)
next
  case False
  let ?upd = "if ip then updateBlockInterior ext cfg else updateBlockExterior ext cfg"
  have f: "foldE ?upd bs s1 = Inr s1'"
    using assms(2) False by (simp add: launchThreads_sequential)
  have "\<exists>s2'. foldE ?upd bs s2 = Inr s2' \<and> simRel s1' s2'"
  proof (rule foldE_rel [OF f, where R = simRel])
    show "simRel s1 s2" by (rule assms(1))
  next
    fix x u u' v
    assume r: "simRel u v" and u: "?upd x u = Inr u'"
    show "\<exists>v'. ?upd x v = Inr v' \<and> simRel u' v'"
    proof (cases ip)
      case True
      with u have "updateBlockInterior ext cfg x u = Inr u'" by simp
      from updateBlockInterior_rel [OF r this] True show ?thesis by simp
    next
      case False
      with u have "updateBlockExterior ext cfg x u = Inr u'" by simp
      from updateBlockExterior_rel [OF r this] False show ?thesis by simp
    qed
  qed
  then show ?thesis using False by (simp add: launchThreads_sequential)
qed

lemma extractMeshInsideBlock_hasBlock:
  assumes "extractMeshInsideBlock ext cfg vps b block idx pt (n, m, vl) = Inr (n', m', vl')"
  shows "hasBlock vl' c = hasBlock vl c"
proof -
  have r: "meshStateRel (n, m, vl) (n, m, vl)" by (simp add: meshStateRel_def meshEq_def)
  show ?thesis
  proof (cases "insideCorners ext (min_weight cfg) vps b block idx pt cornerNumbers ([], [], replicate 8 None)")
    case (Inl e)
    then show ?thesis using assms by (simp add: extractMeshInsideBlock_def split: if_splits)
  next
    case (Inr r)
    show ?thesis
    proof (cases r)
      case None
      then show ?thesis using assms Inr by (simp add: extractMeshInsideBlock_def split: if_splits)
    next
      case (Some data)
      obtain sdf coords vox where data: "data = (sdf, coords, vox)" by (cases data) auto
      have "emitVertices vox (cubeVertices ext sdf coords) (n, m, vl) = (n', m', vl')"
        using assms Inr Some data by (simp add: extractMeshInsideBlock_def meshCube_def split: if_splits)
      then show ?thesis
        using emitVertices_hasBlock [of vox "cubeVertices ext sdf coords" n m vl c] by simp
    qed
  qed
qed

lemma extractMeshOnBorder_hasBlock:
  assumes "extractMeshOnBorder ext cfg layer b block idx pt (n, m, vl) = Inr (n', m', vl')"
  shows "hasBlock vl' c = hasBlock vl c"
proof (cases "borderCorners ext (min_weight cfg) layer b block idx pt cornerNumbers ([], [], replicate 8 None)")
  case (Inl e)
  then show ?thesis using assms by (simp add: extractMeshOnBorder_def split: if_splits)
next
  case (Inr r)
  show ?thesis
  proof (cases r)
    case None
    then show ?thesis using assms Inr by (simp add: extractMeshOnBorder_def split: if_splits)
  next
    case (Some data)
    obtain sdf coords vox where data: "data = (sdf, coords, vox)" by (cases data) auto
    have "emitVertices vox (cubeVertices ext sdf coords) (n, m, vl) = (n', m', vl')"
      using assms Inr Some data by (simp add: extractMeshOnBorder_def meshCube_def split: if_splits)
    then show ?thesis
      using emitVertices_hasBlock [of vox "cubeVertices ext sdf coords" n m vl c] by simp
  qed
qed

lemma cells_keep_hasBlock:
  assumes "foldE f cells (n, m :: 'p Mesh, vl :: VertexVoxel Layer) = Inr (n', m', vl')"
    and "\<And>x n m vl n' m' vl'. f x (n, m, vl) = Inr (n', m', vl') \<Longrightarrow> hasBlock vl' c = hasBlock vl c"
  shows "hasBlock vl' c = hasBlock vl c"
proof -
  have "(\<lambda>t. hasBlock (snd (snd t)) c = hasBlock vl c) (n', m', vl')"
  proof (rule foldE_invariant [OF assms(1)])
    show "hasBlock (snd (snd (n, m, vl))) c = hasBlock vl c" by simp
  next
    fix x t t'
    assume p: "hasBlock (snd (snd t)) c = hasBlock vl c" and f: "f x t = Inr t'"
    obtain n1 m1 vl1 where t: "t = (n1, m1, vl1)" by (cases t) auto
    obtain n2 m2 vl2 where t': "t' = (n2, m2, vl2)" by (cases t') auto
    from assms(2) [OF f [unfolded t t']] p show "hasBlock (snd (snd t')) c = hasBlock vl c"
      by (simp add: t t')
  qed
  then show ?thesis by simp
qed

lemma updateBlockInterior_hasBlock:
  assumes "updateBlockInterior ext cfg b st = Inr st'"
  shows "hasBlock (vertex_layer st') c = hasBlock (vertex_layer st) c"
proof (cases "meshes (mesh_layer st) b")
  case None
  then show ?thesis using assms
    by (auto simp: updateBlockInterior_def Let_def split: option.splits if_splits)
next
  case (Some mesh)
  from assms Some obtain block n' mesh' vl' where
    f: "foldE (\<lambda>voxel_index.
                  extractMeshInsideBlock ext cfg (voxels_per_side (sdf_layer st)) b block voxel_index
                    (computeCoordinatesFromVoxelIndex ext b voxel_index))
                (interiorCells (int (voxels_per_side (sdf_layer st)))) (0, mesh, vertex_layer st) =
          Inr (n', mesh', vl')"
    and st': "st' = st\<lparr>vertex_layer := vl', mesh_layer := storeMesh b mesh' (mesh_layer st)\<rparr>"
    by (auto simp: updateBlockInterior_def Let_def split: option.splits sum.splits prod.splits)
  have "hasBlock vl' c = hasBlock (vertex_layer st) c"
    by (rule cells_keep_hasBlock [OF f]) (rule extractMeshInsideBlock_hasBlock)
  then show ?thesis using st' by simp
qed

lemma updateBlockExterior_hasBlock:
  assumes "updateBlockExterior ext cfg b st = Inr st'"
  shows "hasBlock (vertex_layer st') c = hasBlock (vertex_layer st) c"
proof -
  from assms obtain mesh block n' mesh' vl' mesh'' labels where
    f: "foldE (\<lambda>voxel_index.
                  extractMeshOnBorder ext cfg (sdf_layer st) b block voxel_index
                    (computeCoordinatesFromVoxelIndex ext b voxel_index))
                (exteriorCells (int (voxels_per_side (sdf_layer st))))
                (length (vertices mesh), mesh, vertex_layer st) = Inr (n', mesh', vl')"
    and st': "st' = st\<lparr>vertex_layer := vl',
                 mesh_layer := storeMesh b (mesh''\<lparr>mesh_updated := True\<rparr>)
                                 (storeLabels b labels (mesh_layer st))\<rparr>"
    by (auto simp: updateBlockExterior_def Let_def split: option.splits sum.splits prod.splits)
  have "hasBlock vl' c = hasBlock (vertex_layer st) c"
    by (rule cells_keep_hasBlock [OF f]) (rule extractMeshOnBorder_hasBlock)
  then show ?thesis using st' by simp
qed

lemma launchThreads_frame:
  assumes "launchThreads ext cfg bs ip st = Inr st'"
  shows "(\<forall>c. hasBlock (vertex_layer st') c = hasBlock (vertex_layer st) c) \<and>
         (\<forall>c. c \<notin> set bs \<longrightarrow> meshes (mesh_layer st') c = meshes (mesh_layer st) c \<and>
                            semantics (mesh_layer st') c = semantics (mesh_layer st) c) \<and>
         (semantic_layer st = None \<longrightarrow> semantics (mesh_layer st') = semantics (mesh_layer st))"
proof (cases "integrator_threads cfg = 0")
  case True
  then show ?thesis using assms by (simp add: launchThreads_sequential)
next
  case False
  let ?upd = "if ip then updateBlockInterior ext cfg else updateBlockExterior ext cfg"
  let ?P = "\<lambda>t. semantic_layer t = semantic_layer st \<and>
         (\<forall>c. hasBlock (vertex_layer t) c = hasBlock (vertex_layer st) c) \<and>
         (\<forall>c. c \<notin> set bs \<longrightarrow> meshes (mesh_layer t) c = meshes (mesh_layer st) c \<and>
                            semantics (mesh_layer t) c = semantics (mesh_layer st) c) \<and>
         (semantic_layer st = None \<longrightarrow> semantics (mesh_layer t) = semantics (mesh_layer st))"
  have f: "foldE ?upd bs st = Inr st'"
    using assms False by (simp add: launchThreads_sequential)
  have "?P st'"
  proof (rule foldE_invariant [OF f, where P = ?P])
    show "?P st" by simp
  next
    fix x t t'
    assume x: "x \<in> set bs" and p: "?P t" and u: "?upd x t = Inr t'"
    show "?P t'"
    proof (cases ip)
      case True
      with u have i: "updateBlockInterior ext cfg x t = Inr t'" by simp
      have ne: "c \<notin> set bs \<Longrightarrow> c \<noteq> x" for c using x by auto
      show ?thesis
        using p updateBlockInterior_frame(2,3) [OF i] updateBlockInterior_frame(4) [OF i ne]
          updateBlockInterior_hasBlock [OF i]
        by simp
    next
      case False
      with u have e: "updateBlockExterior ext cfg x t = Inr t'" by simp
      have ne: "c \<notin> set bs \<Longrightarrow> c \<noteq> x" for c using x by auto
      from updateBlockExterior_result [OF e] have
        sn: "semantic_layer t = None \<longrightarrow> semantics (mesh_layer t') = semantics (mesh_layer t)"
        by blast
      show ?thesis
        using p updateBlockExterior_frame(2) [OF e] updateBlockExterior_frame(3) [OF e ne]
          updateBlockExterior_frame(4) [OF e ne] updateBlockExterior_hasBlock [OF e] sn
        by simp
    qed
  qed
  then show ?thesis by blast
qed

lemma clearUpdatedFlags_runs:
  assumes "\<forall>b. b \<in> set bs \<longrightarrow> hasBlock (sdf_layer st) b"
  shows "\<exists>st'. foldE clearUpdatedFlag bs st = Inr st'"
  using assms
proof (induction bs arbitrary: st)
  case Nil
  then show ?case by simp
next
  case (Cons a bs)
  from Cons.prems obtain blk where blk: "getBlockPtrByIndex (sdf_layer st) a = Some blk"
    by (auto simp: hasBlock_def)
  then obtain t where t: "clearUpdatedFlag a st = Inr t"
    by (simp add: clearUpdatedFlag_def)
  have "hasBlock (sdf_layer t) b = hasBlock (sdf_layer st) b" for b
    using t blk
    by (cases "b = a")
       (auto simp: clearUpdatedFlag_def hasBlock_def getBlockPtrByIndex_def map_of_map_entry)
  with Cons.prems have "\<forall>b. b \<in> set bs \<longrightarrow> hasBlock (sdf_layer t) b" by simp
  from Cons.IH [OF this] t show ?case by simp
qed

lemma sameVoxels_after_clear:
  assumes "foldE clearUpdatedFlag bs st = Inr st'"
  shows "sameVoxels (sdf_layer st) (sdf_layer st')"
proof -
  from clearUpdatedFlags_effect [OF assms] have
    g: "\<forall>b. getBlockPtrByIndex (sdf_layer st') b =
            (if b \<in> set bs then map_option resetMeshBit (getBlockPtrByIndex (sdf_layer st) b)
             else getBlockPtrByIndex (sdf_layer st) b)"
    and v: "voxels_per_side (sdf_layer st') = voxels_per_side (sdf_layer st)"
    by blast+
  have "map_option voxels (getBlockPtrByIndex (sdf_layer st) b) =
        map_option voxels (getBlockPtrByIndex (sdf_layer st') b)" for b
    using g by (cases "getBlockPtrByIndex (sdf_layer st) b") (simp_all add: resetMeshBit_def)
  with v show ?thesis by (simp add: sameVoxels_def)
qed

lemma prepareBlocks_hasBlock:
  "hasBlock (vertex_layer (prepareBlocks bs st)) c = (c \<in> set bs \<or> hasBlock (vertex_layer st) c)"
  by (simp add: hasBlock_def prepareBlocks_vertex)

lemma meshEq_refl: "rel_option meshEq x x"
  by (cases x) (simp_all add: meshEq_def)

lemma prepare_simRel:
  assumes "sameVoxels (sdf_layer s0) (sdf_layer s1)" and "semantic_layer s1 = semantic_layer s0"
    and "\<forall>c. hasBlock (vertex_layer s1) c = (c \<in> set bs \<or> hasBlock (vertex_layer s0) c)"
    and "\<forall>c. c \<notin> set bs \<longrightarrow> meshes (mesh_layer s1) c = meshes (mesh_layer s0) c \<and>
                            semantics (mesh_layer s1) c = semantics (mesh_layer s0) c"
    and "semantic_layer s0 = None \<longrightarrow> semantics (mesh_layer s1) = semantics (mesh_layer s0)"
  shows "simRel (prepareBlocks bs s0) (prepareBlocks bs s1)"
  unfolding simRel_def
proof (intro conjI allI)
  show "sameVoxels (sdf_layer (prepareBlocks bs s0)) (sdf_layer (prepareBlocks bs s1))"
    using assms(1) by simp
  show "semantic_layer (prepareBlocks bs s0) = semantic_layer (prepareBlocks bs s1)"
    using assms(2) by simp
next
  fix c
  show "hasBlock (vertex_layer (prepareBlocks bs s0)) c = hasBlock (vertex_layer (prepareBlocks bs s1)) c"
    using assms(3) by (auto simp: prepareBlocks_hasBlock)
  show "rel_option meshEq (meshes (mesh_layer (prepareBlocks bs s0)) c)
          (meshes (mesh_layer (prepareBlocks bs s1)) c)"
  proof (cases "c \<in> set bs")
    case True
    then show ?thesis by (simp add: prepareBlocks_meshes meshEq_def clearMesh_def)
  next
    case False
    with assms(4) have "meshes (mesh_layer s1) c = meshes (mesh_layer s0) c" by blast
    with False show ?thesis by (simp add: prepareBlocks_meshes meshEq_refl)
  qed
  show "(semantics (mesh_layer (prepareBlocks bs s0)) c = None) =
        (semantics (mesh_layer (prepareBlocks bs s1)) c = None)"
  proof (cases "c \<in> set bs")
    case True
    show ?thesis
    proof (cases "semantic_layer s0")
      case None
      with assms(5) have "semantics (mesh_layer s1) = semantics (mesh_layer s0)" by blast
      with None assms(2) show ?thesis by (simp add: prepareBlocks_semantics)
    next
      case (Some sl)
      with True assms(2) show ?thesis by (simp add: prepareBlocks_semantics)
    qed
  next
    case False
    with assms(4) have "semantics (mesh_layer s1) c = semantics (mesh_layer s0) c" by blast
    with False show ?thesis by (simp add: prepareBlocks_semantics)
  qed
qed

lemma generateMesh_run_facts:
  assumes "generateMesh ext cfg False True st0 = Inr st1"
  shows "candidateBlocks False (sdf_layer st1) = candidateBlocks False (sdf_layer st0)"
    and "sameVoxels (sdf_layer st0) (sdf_layer st1)"
    and "semantic_layer st1 = semantic_layer st0"
    and "\<forall>c. hasBlock (vertex_layer st1) c =
           (c \<in> set (candidateBlocks False (sdf_layer st0)) \<or> hasBlock (vertex_layer st0) c)"
    and "\<forall>c. c \<notin> set (candidateBlocks False (sdf_layer st0)) \<longrightarrow>
           meshes (mesh_layer st1) c = meshes (mesh_layer st0) c \<and>
           semantics (mesh_layer st1) c = semantics (mesh_layer st0) c"
    and "semantic_layer st0 = None \<longrightarrow> semantics (mesh_layer st1) = semantics (mesh_layer st0)"
    and "integrator_threads cfg = 0 \<longrightarrow>
           mesh_layer st1 = mesh_layer (prepareBlocks (candidateBlocks False (sdf_layer st0)) st0)"
    and "integrator_threads cfg \<noteq> 0 \<longrightarrow>
           (\<forall>c. c \<in> set (candidateBlocks False (sdf_layer st0)) \<longrightarrow>
                paintedBlock ext st0 c (mesh_layer st1))"
proof -
  let ?bs = "candidateBlocks False (sdf_layer st0)"
  let ?P0 = "prepareBlocks ?bs st0"
  from generateMesh_stages [OF assms] obtain a2 a3 where
    p1: "launchThreads ext cfg ?bs True ?P0 = Inr a2"
    and p2: "launchThreads ext cfg ?bs False a2 = Inr a3"
    and fl: "foldE clearUpdatedFlag ?bs a3 = Inr st1"
    by auto
  note l1 = launchThreads_layers [OF p1]
  note l2 = launchThreads_layers [OF p2]
  note f1 = launchThreads_frame [OF p1]
  note f2 = launchThreads_frame [OF p2]
  note ce = clearUpdatedFlags_effect [OF fl]
  have sdf3: "sdf_layer a3 = sdf_layer st0" using l1 l2 by simp
  have sem3: "semantic_layer a3 = semantic_layer st0" "semantic_layer a2 = semantic_layer st0"
    using l1 l2 by simp_all
  show "candidateBlocks False (sdf_layer st1) = ?bs"
    using ce sdf3 by (simp add: candidateBlocks_def getAllAllocatedBlocks_def)
  show "sameVoxels (sdf_layer st0) (sdf_layer st1)"
    using sameVoxels_after_clear [OF fl] sdf3 by simp
  show "semantic_layer st1 = semantic_layer st0" using ce sem3 by simp
  show "\<forall>c. hasBlock (vertex_layer st1) c = (c \<in> set ?bs \<or> hasBlock (vertex_layer st0) c)"
    using ce f1 f2 by (simp add: prepareBlocks_hasBlock)
  show "\<forall>c. c \<notin> set ?bs \<longrightarrow>
           meshes (mesh_layer st1) c = meshes (mesh_layer st0) c \<and>
           semantics (mesh_layer st1) c = semantics (mesh_layer st0) c"
    using ce f1 f2 by (simp add: prepareBlocks_meshes prepareBlocks_semantics)
  show "semantic_layer st0 = None \<longrightarrow> semantics (mesh_layer st1) = semantics (mesh_layer st0)"
  proof
    assume n: "semantic_layer st0 = None"
    have "semantics (mesh_layer ?P0) = semantics (mesh_layer st0)"
      using n by (simp add: fun_eq_iff prepareBlocks_semantics)
    then show "semantics (mesh_layer st1) = semantics (mesh_layer st0)"
      using ce f1 f2 n sem3 by simp
  qed
  show "integrator_threads cfg = 0 \<longrightarrow> mesh_layer st1 = mesh_layer ?P0"
    using p1 p2 ce by (auto simp: launchThreads_sequential)
  show "integrator_threads cfg \<noteq> 0 \<longrightarrow>
           (\<forall>c. c \<in> set ?bs \<longrightarrow> paintedBlock ext st0 c (mesh_layer st1))"
  proof (intro impI allI)
    fix c assume t: "integrator_threads cfg \<noteq> 0" and c: "c \<in> set ?bs"
    from p1 t have i: "foldE (updateBlockInterior ext cfg) ?bs ?P0 = Inr a2"
      by (simp add: launchThreads_sequential)
    from p2 t have e: "foldE (updateBlockExterior ext cfg) ?bs a2 = Inr a3"
      by (simp add: launchThreads_sequential)
    have bal: "\<forall>a. a \<in> set ?bs \<longrightarrow> balancedAt a (mesh_layer a2)"
      using interior_pass_balanced [OF i] prepareBlocks_balanced by blast
    have s2: "sdf_layer a2 = sdf_layer st0" using l1 by simp
    have "paintedBlock ext st0 c (mesh_layer a3)"
      by (rule exterior_pass_paints [OF e bal s2 sem3(2)]) (use c in simp)
    then show "paintedBlock ext st0 c (mesh_layer st1)" using ce by simp
  qed
qed

lemma prepareBlocks_mesh_layer_idem:
  assumes "mesh_layer s1 = mesh_layer (prepareBlocks bs s0)"
    and "semantic_layer s1 = semantic_layer s0"
  shows "mesh_layer (prepareBlocks bs s1) = mesh_layer (prepareBlocks bs s0)"
proof (rule SemanticMeshLayer.equality)
  show "meshes (mesh_layer (prepareBlocks bs s1)) = meshes (mesh_layer (prepareBlocks bs s0))"
    by (rule ext) (simp add: prepareBlocks_meshes [of bs s1] assms(1), simp add: prepareBlocks_meshes)
  show "semantics (mesh_layer (prepareBlocks bs s1)) = semantics (mesh_layer (prepareBlocks bs s0))"
    by (rule ext)
       (simp add: prepareBlocks_semantics [of bs s1] assms, simp add: prepareBlocks_semantics)
qed simp

lemma painted_equal:
  assumes "paintedBlock ext st0 c ml1" and "paintedBlock ext st1 c ml2"
    and "rel_option meshEq (meshes ml1 c) (meshes ml2 c)"
    and "sameVoxels (sdf_layer st0) (sdf_layer st1)" and "semantic_layer st1 = semantic_layer st0"
  shows "meshes ml1 c = meshes ml2 c \<and>
         (semantic_layer st0 \<noteq> None \<longrightarrow> semantics ml1 c = semantics ml2 c)"
proof -
  from assms(1) obtain m1 block1 where
    m1: "meshes ml1 c = Some m1" and b1: "getBlockPtrByIndex (sdf_layer st0) c = Some block1"
    and u1: "mesh_updated m1"
    and l1: "semantic_layer st0 \<noteq> None \<longrightarrow>
           (\<exists>ls. semantics ml1 c = Some ls \<and> length ls = length (vertices m1) \<and>
              (\<forall>i. i < length (vertices m1) \<longrightarrow>
                 (\<exists>voxel sv. lookupVertexVoxels ext st0 block1 c (vertices m1 ! i) = Inr (voxel, Some sv) \<and>
                    ls ! i = semantic_label sv)))"
    unfolding paintedBlock_def by blast
  from assms(2) obtain m2 block2 where
    m2: "meshes ml2 c = Some m2" and b2: "getBlockPtrByIndex (sdf_layer st1) c = Some block2"
    and u2: "mesh_updated m2"
    and l2: "semantic_layer st1 \<noteq> None \<longrightarrow>
           (\<exists>ls. semantics ml2 c = Some ls \<and> length ls = length (vertices m2) \<and>
              (\<forall>i. i < length (vertices m2) \<longrightarrow>
                 (\<exists>voxel sv. lookupVertexVoxels ext st1 block2 c (vertices m2 ! i) = Inr (voxel, Some sv) \<and>
                    ls ! i = semantic_label sv)))"
    unfolding paintedBlock_def by blast
  from assms(3) m1 m2 have me: "meshEq m1 m2" by simp
  have meq: "m1 = m2"
    using me u1 u2 by (intro Mesh.equality) (simp_all add: meshEq_def)
  from sameVoxels_block [OF assms(4), of c] b1 b2 have e: "voxels block1 = voxels block2" by auto
  have lk: "lookupVertexVoxels ext st0 block1 c v = lookupVertexVoxels ext st1 block2 c v" for v
    by (rule lookupVertexVoxels_rel [OF assms(4) assms(5) [symmetric] e])
  have "semantics ml1 c = semantics ml2 c" if s: "semantic_layer st0 \<noteq> None"
  proof -
    from l1 s obtain ls1 where
      ls1: "semantics ml1 c = Some ls1" "length ls1 = length (vertices m1)"
      and n1: "\<forall>i. i < length (vertices m1) \<longrightarrow>
                 (\<exists>voxel sv. lookupVertexVoxels ext st0 block1 c (vertices m1 ! i) = Inr (voxel, Some sv) \<and>
                    ls1 ! i = semantic_label sv)"
      by blast
    from l2 s assms(5) obtain ls2 where
      ls2: "semantics ml2 c = Some ls2" "length ls2 = length (vertices m2)"
      and n2: "\<forall>i. i < length (vertices m2) \<longrightarrow>
                 (\<exists>voxel sv. lookupVertexVoxels ext st1 block2 c (vertices m2 ! i) = Inr (voxel, Some sv) \<and>
                    ls2 ! i = semantic_label sv)"
      by auto
    have "ls1 = ls2"
    proof (rule nth_equalityI)
      show "length ls1 = length ls2" using ls1 ls2 meq by simp
    next
      fix i assume "i < length ls1"
      then have i: "i < length (vertices m1)" using ls1 by simp
      from n1 i obtain v1 sv1 where
        a: "lookupVertexVoxels ext st0 block1 c (vertices m1 ! i) = Inr (v1, Some sv1)"
           "ls1 ! i = semantic_label sv1" by blast
      from n2 i meq obtain v2 sv2 where
        b: "lookupVertexVoxels ext st1 block2 c (vertices m1 ! i) = Inr (v2, Some sv2)"
           "ls2 ! i = semantic_label sv2" by blast
      from a(1) b(1) lk have "sv1 = sv2" by simp
      with a(2) b(2) show "ls1 ! i = ls2 ! i" by simp
    qed
    with ls1 ls2 show ?thesis by simp
  qed
  with m1 m2 meq show ?thesis by simp
qed

text \<open>
  Claim C6. When \<^verbatim>\<open>generateMesh(false, true)\<close> has finished, a second call on the state it
  left, with the distance field and the semantic layer untouched in between, finishes as
  well and leaves the same mesh store: the same vertices, triangle indices, colours,
  update marks and labels for every block.
\<close>

theorem generateMesh_idempotent:
  assumes "generateMesh ext cfg False True st0 = Inr st1"
  shows "\<exists>st2. generateMesh ext cfg False True st1 = Inr st2 \<and> mesh_layer st2 = mesh_layer st1"
proof -
  let ?bs = "candidateBlocks False (sdf_layer st0)"
  let ?P0 = "prepareBlocks ?bs st0"
  let ?P1 = "prepareBlocks ?bs st1"
  note F = generateMesh_run_facts [OF assms]
  from generateMesh_stages [OF assms] obtain a2 a3 where
    p1: "launchThreads ext cfg ?bs True ?P0 = Inr a2"
    and p2: "launchThreads ext cfg ?bs False a2 = Inr a3"
    and fl: "foldE clearUpdatedFlag ?bs a3 = Inr st1"
    by auto
  have ml1: "mesh_layer st1 = mesh_layer a3" using clearUpdatedFlags_effect [OF fl] by simp
  have r0: "simRel ?P0 ?P1"
    by (rule prepare_simRel [OF F(2) F(3) F(4) F(5) F(6)])
  from launchThreads_rel [OF r0 p1] obtain b2 where
    q1: "launchThreads ext cfg ?bs True ?P1 = Inr b2" and r2: "simRel a2 b2" by blast
  from launchThreads_rel [OF r2 p2] obtain b3 where
    q2: "launchThreads ext cfg ?bs False b2 = Inr b3" and r3: "simRel a3 b3" by blast
  have sdf3: "sdf_layer b3 = sdf_layer st1"
    using launchThreads_layers [OF q1] launchThreads_layers [OF q2] by simp
  have "\<forall>b. b \<in> set ?bs \<longrightarrow> hasBlock (sdf_layer b3) b"
  proof (intro allI impI)
    fix b assume "b \<in> set ?bs"
    then have "b \<in> set (candidateBlocks False (sdf_layer st1))" using F(1) by simp
    from candidate_allocated [OF this] show "hasBlock (sdf_layer b3) b"
      by (auto simp: hasBlock_def sdf3)
  qed
  from clearUpdatedFlags_runs [OF this] obtain st2 where
    gl: "foldE clearUpdatedFlag ?bs b3 = Inr st2" by blast
  have run2: "generateMesh ext cfg False True st1 = Inr st2"
    using q1 q2 gl by (simp add: generateMesh_def Let_def F(1))
  have ml2: "mesh_layer st2 = mesh_layer b3" using clearUpdatedFlags_effect [OF gl] by simp
  note G = generateMesh_run_facts [OF run2]
  have "mesh_layer st2 = mesh_layer st1"
  proof (cases "integrator_threads cfg = 0")
    case True
    with F(7) have a: "mesh_layer st1 = mesh_layer ?P0" by blast
    from True G(7) have "mesh_layer st2 = mesh_layer ?P1" by (simp add: F(1))
    also have "\<dots> = mesh_layer ?P0"
      by (rule prepareBlocks_mesh_layer_idem [OF a F(3)])
    finally show ?thesis using a by simp
  next
    case False
    have pt: "meshes (mesh_layer st1) c = meshes (mesh_layer st2) c \<and>
              semantics (mesh_layer st1) c = semantics (mesh_layer st2) c" for c
    proof (cases "c \<in> set ?bs")
      case out: False
      with G(5) show ?thesis by (simp add: F(1))
    next
      case True
      from F(8) False True have pa: "paintedBlock ext st0 c (mesh_layer st1)" by blast
      from G(8) False True have pb: "paintedBlock ext st1 c (mesh_layer st2)" by (simp add: F(1))
      have rel: "rel_option meshEq (meshes (mesh_layer st1) c) (meshes (mesh_layer st2) c)"
        using simRel_meshes [OF r3, of c] by (simp add: ml1 ml2)
      note pe = painted_equal [OF pa pb rel F(2) F(3)]
      show ?thesis
      proof (cases "semantic_layer st0")
        case None
        with G(6) F(3) have "semantics (mesh_layer st2) = semantics (mesh_layer st1)" by simp
        with pe show ?thesis by simp
      next
        case (Some sl)
        with pe show ?thesis by simp
      qed
    qed
    show ?thesis
      by (rule SemanticMeshLayer.equality) (simp_all add: fun_eq_iff pt)
  qed
  with run2 show ?thesis by blast
qed

theorem generateMesh_idempotent_witness:
  "\<exists>st1 st2. generateMesh demoExt demoCfg False True demoIntegrator = Inr st1 \<and>
      generateMesh demoExt demoCfg False True st1 = Inr st2 \<and>
      mesh_layer st2 = mesh_layer st1 \<and>
      map_option vertices (meshes (mesh_layer st2) (0, 0, 0)) = Some [0, 1, 3, 0, 1, 3]"
proof -
  from demo_run_all obtain st1 where
    r1: "generateMesh demoExt demoCfg False True demoIntegrator = Inr st1" by blast
  from generateMesh_idempotent [OF r1] obtain st2 where
    r2: "generateMesh demoExt demoCfg False True st1 = Inr st2"
    and e: "mesh_layer st2 = mesh_layer st1" by blast
  have "map_option vertices (meshes (mesh_layer st1) (0, 0, 0)) = Some [0, 1, 3, 0, 1, 3]"
    using demo_run_all_vertices r1 by simp
  with r1 r2 e show ?thesis by auto
qed

lemma set_concat_claim:
  assumes "w < length xs"
  shows "set (concat (xs[w := xs ! w @ [a]])) = insert a (set (concat xs))"
  using assms
proof (induction xs arbitrary: w)
  case Nil
  then show ?case by simp
next
  case (Cons x xs)
  then show ?case by (cases w) auto
qed

lemma distinct_concat_claim:
  assumes "w < length xs" and "distinct (concat xs)" and "a \<notin> set (concat xs)"
  shows "distinct (concat (xs[w := xs ! w @ [a]]))"
  using assms
proof (induction xs arbitrary: w)
  case Nil
  then show ?case by simp
next
  case (Cons x xs)
  show ?case
  proof (cases w)
    case 0
    then show ?thesis using Cons.prems by auto
  next
    case (Suc k)
    with Cons.prems have k: "k < length xs" by simp
    have d: "distinct (concat (xs[k := xs ! k @ [a]]))"
      using Cons.IH [OF k] Cons.prems by simp
    have s: "set (concat (xs[k := xs ! k @ [a]])) = insert a (set (concat xs))"
      by (rule set_concat_claim [OF k])
    show ?thesis using Suc Cons.prems d s by auto
  qed
qed

lemma length_nth_le_concat:
  assumes "w < length xs"
  shows "length (xs ! w) \<le> length (concat xs)"
  using assms
proof (induction xs arbitrary: w)
  case Nil
  then show ?case by simp
next
  case (Cons x xs)
  show ?case
  proof (cases w)
    case 0
    then show ?thesis by simp
  next
    case (Suc k)
    with Cons.prems have "k < length xs" by simp
    from Cons.IH [OF this] Suc show ?thesis by simp
  qed
qed

lemma runSchedule_snoc: "runSchedule (sched @ [w]) p = workerStep w (runSchedule sched p)"
  by (simp add: runSchedule_def)

lemma pool_invariant:
  "number_of_points (cursor (runSchedule sched (launchPool t n))) = n \<and>
   length (running (runSchedule sched (launchPool t n))) = t \<and>
   length (claimed (runSchedule sched (launchPool t n))) = t \<and>
   distinct (concat (claimed (runSchedule sched (launchPool t n)))) \<and>
   set (concat (claimed (runSchedule sched (launchPool t n)))) =
     {0..<min (atomic_idx (cursor (runSchedule sched (launchPool t n)))) n} \<and>
   ((\<exists>w. w < t \<and> \<not> running (runSchedule sched (launchPool t n)) ! w) \<longrightarrow>
      n \<le> atomic_idx (cursor (runSchedule sched (launchPool t n)))) \<and>
   (\<forall>w. w < t \<and> running (runSchedule sched (launchPool t n)) ! w \<longrightarrow>
      length (claimed (runSchedule sched (launchPool t n)) ! w) = count_list sched w)"
proof (induction sched rule: rev_induct)
  case Nil
  show ?case by (auto simp: runSchedule_def launchPool_def)
next
  case (snoc v sched)
  let ?p = "runSchedule sched (launchPool t n)"
  from snoc.IH have np: "number_of_points (cursor ?p) = n"
    and lr: "length (running ?p) = t" and lc: "length (claimed ?p) = t"
    and di: "distinct (concat (claimed ?p))"
    and se: "set (concat (claimed ?p)) = {0..<min (atomic_idx (cursor ?p)) n}"
    and ex: "(\<exists>w. w < t \<and> \<not> running ?p ! w) \<longrightarrow> n \<le> atomic_idx (cursor ?p)"
    and cn: "\<forall>w. w < t \<and> running ?p ! w \<longrightarrow> length (claimed ?p ! w) = count_list sched w"
    by blast+
  show ?case
  proof (cases "v < t \<and> running ?p ! v")
    case False
    then have e: "workerStep v ?p = ?p" using lr by (auto simp: workerStep_def)
    have "count_list (sched @ [v]) w = count_list sched w" if "w < t \<and> running ?p ! w" for w
      using that False by auto
    then have c': "\<forall>w. w < t \<and> running ?p ! w \<longrightarrow>
        length (claimed ?p ! w) = count_list (sched @ [v]) w"
      using cn by simp
    show ?thesis
      unfolding runSchedule_snoc e using np lr lc di se ex c' by blast
  next
    case True
    show ?thesis
    proof (cases "atomic_idx (cursor ?p) < n")
      case lt: True
      let ?q = "?p\<lparr>cursor := (cursor ?p)\<lparr>atomic_idx := Suc (atomic_idx (cursor ?p))\<rparr>,
                    claimed := (claimed ?p)[v := claimed ?p ! v @ [atomic_idx (cursor ?p)]]\<rparr>"
      have e: "workerStep v ?p = ?q"
        using True lt np lr by (simp add: workerStep_def getNextIndex_def)
      have v: "v < length (claimed ?p)" using True lc by simp
      have fresh: "atomic_idx (cursor ?p) \<notin> set (concat (claimed ?p))"
        using se by simp
      have all_run: "\<forall>w. w < t \<longrightarrow> running ?p ! w" using ex lt by auto
      have s': "set (concat (claimed ?q)) = {0..<min (atomic_idx (cursor ?q)) n}"
        using set_concat_claim [OF v, of "atomic_idx (cursor ?p)"] se lt by auto
      have d': "distinct (concat (claimed ?q))"
        using distinct_concat_claim [OF v di fresh] by simp
      have c': "length (claimed ?q ! w) = count_list (sched @ [v]) w" if "w < t \<and> running ?q ! w" for w
        using that cn v lc by (cases "w = v") (auto simp: nth_list_update)
      have b': "number_of_points (cursor ?q) = n" "length (running ?q) = t" "length (claimed ?q) = t"
        using np lr lc by simp_all
      have x': "(\<exists>w. w < t \<and> \<not> running ?q ! w) \<longrightarrow> n \<le> atomic_idx (cursor ?q)"
        using all_run by auto
      show ?thesis
        unfolding runSchedule_snoc e using b' d' s' x' c' by blast
    next
      case ge: False
      let ?q = "?p\<lparr>cursor := (cursor ?p)\<lparr>atomic_idx := Suc (atomic_idx (cursor ?p))\<rparr>,
                    running := (running ?p)[v := False]\<rparr>"
      have e: "workerStep v ?p = ?q"
        using True ge np lr by (simp add: workerStep_def getNextIndex_def)
      have s': "set (concat (claimed ?q)) = {0..<min (atomic_idx (cursor ?q)) n}"
        using se ge by (simp add: min_def)
      have c': "length (claimed ?q ! w) = count_list (sched @ [v]) w" if "w < t \<and> running ?q ! w" for w
        using that cn lr by (cases "w = v") (auto simp: nth_list_update)
      have b': "number_of_points (cursor ?q) = n" "length (running ?q) = t" "length (claimed ?q) = t"
        using np lr lc by simp_all
      have d': "distinct (concat (claimed ?q))" using di by simp
      have x': "(\<exists>w. w < t \<and> \<not> running ?q ! w) \<longrightarrow> n \<le> atomic_idx (cursor ?q)"
        using ge by simp
      show ?thesis
        unfolding runSchedule_snoc e using b' d' s' x' c' by blast
    qed
  qed
qed

text \<open>
  Claim C9, for a pool of at least one worker. Under every schedule after which all
  workers have left their loops, the indices claimed by the workers are pairwise
  different and are exactly the indices of the block list: every index is claimed once,
  by one worker. Every schedule in which each worker takes more steps than there are
  blocks ends with all workers out of their loops, whether there are more workers than
  blocks or fewer.
\<close>

theorem every_index_claimed_once:
  assumes "0 < t"
  shows "(joined (runSchedule sched (launchPool t n)) \<longrightarrow>
            distinct (concat (claimed (runSchedule sched (launchPool t n)))) \<and>
            set (concat (claimed (runSchedule sched (launchPool t n)))) = {0..<n} \<and>
            length (claimed (runSchedule sched (launchPool t n))) = t) \<and>
         ((\<forall>w. w < t \<longrightarrow> n < count_list sched w) \<longrightarrow>
            joined (runSchedule sched (launchPool t n)))"
proof (intro conjI impI)
  let ?p = "runSchedule sched (launchPool t n)"
  note inv = pool_invariant [of sched t n]
  assume j: "joined ?p"
  have lr: "length (running ?p) = t" using inv by blast
  from j assms lr have "\<not> running ?p ! 0"
    by (simp add: joined_def list_all_length)
  with assms inv have "n \<le> atomic_idx (cursor ?p)" by blast
  then have m: "min (atomic_idx (cursor ?p)) n = n" by simp
  show "distinct (concat (claimed ?p))" using inv by blast
  show "set (concat (claimed ?p)) = {0..<n}" using inv m by simp
  show "length (claimed ?p) = t" using inv by blast
next
  let ?p = "runSchedule sched (launchPool t n)"
  note inv = pool_invariant [of sched t n]
  assume c: "\<forall>w. w < t \<longrightarrow> n < count_list sched w"
  have lr: "length (running ?p) = t" and lc: "length (claimed ?p) = t" using inv by blast+
  have di: "distinct (concat (claimed ?p))" using inv by blast
  have se: "set (concat (claimed ?p)) = {0..<min (atomic_idx (cursor ?p)) n}" using inv by blast
  have "length (concat (claimed ?p)) = card (set (concat (claimed ?p)))"
    by (rule distinct_card [OF di, symmetric])
  also have "\<dots> \<le> n" unfolding se by simp
  finally have total: "length (concat (claimed ?p)) \<le> n" .
  have "\<not> running ?p ! w" if w: "w < t" for w
  proof
    assume r: "running ?p ! w"
    with inv w have "length (claimed ?p ! w) = count_list sched w" by blast
    with c w have "n < length (claimed ?p ! w)" by simp
    moreover have "length (claimed ?p ! w) \<le> length (concat (claimed ?p))"
      by (rule length_nth_le_concat) (use w lc in simp)
    ultimately show False using total by simp
  qed
  then show "joined ?p" using lr by (simp add: joined_def list_all_length)
qed

theorem every_index_claimed_once_witness:
  "joined (runSchedule [0, 1, 0, 1, 0, 1, 0, 1] (launchPool 2 3)) \<and>
   claimed (runSchedule [0, 1, 0, 1, 0, 1, 0, 1] (launchPool 2 3)) = [[0, 2], [1]] \<and>
   set (concat (claimed (runSchedule [0, 1, 0, 1, 0, 1, 0, 1] (launchPool 2 3)))) = {0..<3} \<and>
   joined (runSchedule [2, 2, 1, 1, 0, 0, 2, 1, 0] (launchPool 3 2)) \<and>
   claimed (runSchedule [2, 2, 1, 1, 0, 0, 2, 1, 0] (launchPool 3 2)) = [[], [], [0, 1]] \<and>
   set (concat (claimed (runSchedule [2, 2, 1, 1, 0, 0, 2, 1, 0] (launchPool 3 2)))) = {0..<2}"
proof -
  have t2: "(0::nat) < 2" and t3: "(0::nat) < 3" by simp_all
  have c1: "\<forall>w. w < 2 \<longrightarrow> 3 < count_list [0, 1, 0, 1, 0, 1, 0, 1 :: nat] w"
    by (auto simp: less_Suc_eq numeral_2_eq_2)
  have c2: "\<forall>w. w < 3 \<longrightarrow> 2 < count_list [2, 2, 1, 1, 0, 0, 2, 1, 0 :: nat] w"
    by (auto simp: less_Suc_eq numeral_3_eq_3)
  have j1: "joined (runSchedule [0, 1, 0, 1, 0, 1, 0, 1] (launchPool 2 3))"
    using every_index_claimed_once [OF t2, of "[0, 1, 0, 1, 0, 1, 0, 1]" 3] c1 by blast
  have j2: "joined (runSchedule [2, 2, 1, 1, 0, 0, 2, 1, 0] (launchPool 3 2))"
    using every_index_claimed_once [OF t3, of "[2, 2, 1, 1, 0, 0, 2, 1, 0]" 2] c2 by blast
  have s1: "set (concat (claimed (runSchedule [0, 1, 0, 1, 0, 1, 0, 1] (launchPool 2 3)))) = {0..<3}"
    using every_index_claimed_once [OF t2, of "[0, 1, 0, 1, 0, 1, 0, 1]" 3] j1 by blast
  have s2: "set (concat (claimed (runSchedule [2, 2, 1, 1, 0, 0, 2, 1, 0] (launchPool 3 2)))) = {0..<2}"
    using every_index_claimed_once [OF t3, of "[2, 2, 1, 1, 0, 0, 2, 1, 0]" 2] j2 by blast
  have e1: "claimed (runSchedule [0, 1, 0, 1, 0, 1, 0, 1] (launchPool 2 3)) = [[0, 2], [1]]"
    by (simp add: runSchedule_def launchPool_def workerStep_def getNextIndex_def numeral_2_eq_2)
  have e2: "claimed (runSchedule [2, 2, 1, 1, 0, 0, 2, 1, 0] (launchPool 3 2)) = [[], [], [0, 1]]"
    by (simp add: runSchedule_def launchPool_def workerStep_def getNextIndex_def numeral_3_eq_3
        numeral_2_eq_2)
  from j1 j2 s1 s2 e1 e2 show ?thesis by blast
qed

text \<open>
  With \<^verbatim>\<open>integrator_threads = 0\<close> no worker is started: the pool is joined at once, the
  one index of a list of one block is never claimed, and both passes leave the state as
  it was.
\<close>

theorem no_worker_no_block_counterexample:
  "joined (runSchedule [] (launchPool 0 1)) \<and>
   0 \<notin> set (concat (claimed (runSchedule [] (launchPool 0 1)))) \<and>
   launchThreads demoExt (demoCfg\<lparr>integrator_threads := 0\<rparr>) [(0, 0, 0)] True demoIntegrator =
     Inr demoIntegrator \<and>
   launchThreads demoExt (demoCfg\<lparr>integrator_threads := 0\<rparr>) [(0, 0, 0)] False demoIntegrator =
     Inr demoIntegrator"
  by (simp add: joined_def runSchedule_def launchPool_def launchThreads_def)

end
